theory Spec2Isabelle
  imports Complex_Main "HOL-Library.Multiset" "HOL-Library.AList"
begin

section \<open>Token augmentation layers: RandomSwaps and RandomInsertion\<close>

text \<open>
  A shallow embedding of \<^verbatim>\<open>keras_nlp/layers/random_swaps.py\<close> and
  \<^verbatim>\<open>keras_nlp/layers/random_insertion.py\<close>. Tokens are an arbitrary type \<open>'a\<close>
  (strings or integer ids). Every \<^verbatim>\<open>raise\<close> of the source, and every failure of a
  TensorFlow operation the source calls, is a value \<open>Inl e\<close> of the result.
\<close>

subsection \<open>Errors, dtypes and tensors\<close>

datatype error =
    ValueError string
  | TypeError string
  | InvalidArgumentError string

text \<open>Sequencing of fallible steps: the first error ends the computation.\<close>

definition bind_err :: "error + 'b \<Rightarrow> ('b \<Rightarrow> error + 'c) \<Rightarrow> error + 'c" where
  "bind_err m f = (case m of Inl e \<Rightarrow> Inl e | Inr x \<Rightarrow> f x)"

datatype dtype =
    DT_HALF | DT_FLOAT | DT_DOUBLE | DT_BFLOAT16 | DT_COMPLEX64 | DT_COMPLEX128
  | DT_INT8 | DT_INT16 | DT_INT32 | DT_INT64
  | DT_UINT8 | DT_UINT16 | DT_UINT32 | DT_UINT64
  | DT_BOOL | DT_STRING
  | DT_QINT8 | DT_QUINT8 | DT_QINT16 | DT_QUINT16 | DT_QINT32
  | DT_RESOURCE | DT_VARIANT

text \<open>\<^verbatim>\<open>DType.is_integer\<close>: the non-quantised integer types.\<close>

fun is_integer :: "dtype \<Rightarrow> bool" where
  "is_integer DT_INT8 = True"
| "is_integer DT_INT16 = True"
| "is_integer DT_INT32 = True"
| "is_integer DT_INT64 = True"
| "is_integer DT_UINT8 = True"
| "is_integer DT_UINT16 = True"
| "is_integer DT_UINT32 = True"
| "is_integer DT_UINT64 = True"
| "is_integer _ = False"

text \<open>
  The input of \<^verbatim>\<open>call\<close>, by rank. A rank-2 input is a list of rows, dense or ragged;
  \<open>RankN n\<close> stands for an input of rank \<open>n + 3\<close>.
\<close>

datatype 'a tensor =
    Rank0 'a
  | Rank1 "'a list"
  | Rank2 "'a list list"
  | RankN nat

fun rank :: "'a tensor \<Rightarrow> nat" where
  "rank (Rank0 _) = 0"
| "rank (Rank1 _) = 1"
| "rank (Rank2 _) = 2"
| "rank (RankN n) = n + 3"

text \<open>The sequences of a rank-1 or rank-2 tensor, in order.\<close>

fun rows_of :: "'a tensor \<Rightarrow> 'a list list" where
  "rows_of (Rank1 xs) = [xs]"
| "rows_of (Rank2 xss) = xss"
| "rows_of _ = []"

text \<open>\<^verbatim>\<open>tf.squeeze(t, axis=0)\<close> of a batch: the first dimension must be 1.\<close>

fun squeeze :: "'a list list \<Rightarrow> error + 'a tensor" where
  "squeeze [r] = Inr (Rank1 r)"
| "squeeze _ = Inl (InvalidArgumentError ''Can not squeeze dim[0], expected a dimension of 1'')"

definition rank_error :: error where
  "rank_error = ValueError ''Input must either be rank 1 or rank 2.''"

subsection \<open>Keyword arguments and the dtype check\<close>

text \<open>
  \<^verbatim>\<open>**kwargs\<close>: \<open>kw_dtype = None\<close> is \<^verbatim>\<open>"dtype" not in kwargs\<close>, \<open>Some None\<close> is
  \<^verbatim>\<open>kwargs["dtype"] is None\<close>. \<open>kw_trainable\<close> goes to the base layer unchanged.
\<close>

record kwargs =
  kw_dtype :: "dtype option option"
  kw_trainable :: "bool option"

definition dtype_error :: error where
  "dtype_error = ValueError ''Output dtype must be an integer type or a string.''"

fun check_dtype :: "dtype option option \<Rightarrow> error + dtype" where
  "check_dtype None = Inr DT_INT32"
| "check_dtype (Some None) = Inr DT_INT32"
| "check_dtype (Some (Some d)) =
     (if \<not> is_integer d \<and> d \<noteq> DT_STRING then Inl dtype_error else Inr d)"

subsection \<open>Ragged tensors\<close>

text \<open>
  A ragged batch is its list of rows; \<open>flat_values\<close> and \<open>row_splits\<close> are the two
  components \<^verbatim>\<open>tf.RaggedTensor\<close> stores.
\<close>

definition flat_values :: "'a list list \<Rightarrow> 'a list" where
  "flat_values rows = concat rows"

fun row_splits_from :: "nat \<Rightarrow> 'a list list \<Rightarrow> nat list" where
  "row_splits_from s [] = [s]"
| "row_splits_from s (r # rs) = s # row_splits_from (s + length r) rs"

definition row_splits :: "'a list list \<Rightarrow> nat list" where
  "row_splits rows = row_splits_from 0 rows"

text \<open>Cut a flat list into consecutive rows of the given lengths.\<close>

fun unflatten :: "nat list \<Rightarrow> 'b list \<Rightarrow> 'b list list" where
  "unflatten [] vs = []"
| "unflatten (n # ns) vs = take n vs # unflatten ns (drop n vs)"

text \<open>\<^verbatim>\<open>rt.with_flat_values(vs)\<close>: the row partition of \<open>rt\<close> over new values.\<close>

definition with_flat_values :: "'a list list \<Rightarrow> 'b list \<Rightarrow> 'b list list" where
  "with_flat_values rows vs = unflatten (map length rows) vs"

text \<open>
  \<^verbatim>\<open>tf.RaggedTensor.from_row_splits(values, row_splits)\<close> with its default
  \<^verbatim>\<open>validate=True\<close>: the splits start at 0, do not decrease, and end at the number
  of values; otherwise the operation fails.
\<close>

fun split_lengths :: "nat list \<Rightarrow> nat list" where
  "split_lengths (a # b # ss) = (b - a) # split_lengths (b # ss)"
| "split_lengths _ = []"

definition from_row_splits :: "'b list \<Rightarrow> nat list \<Rightarrow> error + 'b list list" where
  "from_row_splits vals splits =
     (if splits = [] \<or> hd splits \<noteq> 0 \<or> \<not> sorted splits \<or> last splits \<noteq> length vals
      then Inl (InvalidArgumentError
                  ''Arguments to from_row_splits do not form a valid RaggedTensor'')
      else Inr (unflatten (split_lengths splits) vals))"

text \<open>\<^verbatim>\<open>ragged_array_ops.boolean_mask(data, mask)\<close> with a mask of the same row partition.\<close>

definition boolean_mask :: "'b list list \<Rightarrow> bool list list \<Rightarrow> 'b list list" where
  "boolean_mask rows msk =
     map (\<lambda>(r, m). map fst (filter snd (zip r m))) (zip rows msk)"

text \<open>\<^verbatim>\<open>tf.gather(params, indices)\<close>; an index out of range fails.\<close>

definition gather :: "'b list \<Rightarrow> nat list \<Rightarrow> error + 'b list" where
  "gather params indices =
     (if \<forall>i \<in> set indices. i < length params
      then Inr (map (\<lambda>i. params ! i) indices)
      else Inl (InvalidArgumentError ''indices out of range''))"

text \<open>\<^verbatim>\<open>t[i]\<close> on a rank-1 tensor; an index out of range fails.\<close>

definition getitem :: "'b list \<Rightarrow> nat \<Rightarrow> error + 'b" where
  "getitem t i =
     (if i < length t then Inr (t ! i)
      else Inl (InvalidArgumentError ''slice index out of bounds''))"

text \<open>
  \<^verbatim>\<open>tf.tensor_scatter_nd_update(t, [[i], [j]], [u, v])\<close> on a rank-1 tensor.
\<close>

definition tensor_scatter_nd_update ::
  "'b list \<Rightarrow> nat \<Rightarrow> nat \<Rightarrow> 'b \<Rightarrow> 'b \<Rightarrow> error + 'b list" where
  "tensor_scatter_nd_update t i j u v =
     (if i < length t \<and> j < length t then Inr (t[i := u, j := v])
      else Inl (InvalidArgumentError ''indices out of range''))"

subsection \<open>Python floats\<close>

text \<open>
  The rate is a Python float: a number, an infinity or NaN. \<^verbatim>\<open>x > y\<close> and
  \<^verbatim>\<open>x < y\<close> are false whenever \<open>x\<close> is NaN.
\<close>

datatype pyfloat = Finite real | PosInf | NegInf | NaN

fun float_gt :: "pyfloat \<Rightarrow> real \<Rightarrow> bool" where
  "float_gt (Finite x) y = (x > y)"
| "float_gt PosInf y = True"
| "float_gt NegInf y = False"
| "float_gt NaN y = False"

fun float_lt :: "pyfloat \<Rightarrow> real \<Rightarrow> bool" where
  "float_lt (Finite x) y = (x < y)"
| "float_lt PosInf y = False"
| "float_lt NegInf y = True"
| "float_lt NaN y = False"

subsection \<open>The randomness source\<close>

text \<open>
  A draw is keyed by the layer's seed and a counter that every draw advances. What
  TensorFlow's generators compute from a key is not part of this repository: it is the
  parameter \<open>R\<close> (uniform integers) or \<open>B\<close> (binomial counts) of every function below,
  and every theorem holds for all \<open>R\<close> and \<open>B\<close>. The operations bring the raw values
  into the range TensorFlow guarantees.
\<close>

type_synonym key = "int \<times> nat"
type_synonym raw_uniform = "key \<Rightarrow> nat \<Rightarrow> nat \<Rightarrow> nat \<Rightarrow> nat"
type_synonym raw_binomial = "key \<Rightarrow> nat list \<Rightarrow> pyfloat \<Rightarrow> nat \<Rightarrow> nat"

text \<open>
  \<^verbatim>\<open>tf.random.stateless_uniform(shape=[n], minval=0, maxval=m, dtype=int32, seed=k)\<close>:
  \<open>n\<close> integers in \<open>[0, m)\<close>. An empty shape returns the empty tensor whatever the
  bounds; otherwise \<open>minval < maxval\<close> is required.
\<close>

definition stateless_uniform :: "raw_uniform \<Rightarrow> key \<Rightarrow> nat \<Rightarrow> nat \<Rightarrow> error + nat list" where
  "stateless_uniform R k n m =
     (if n = 0 then Inr []
      else if m = 0 then Inl (InvalidArgumentError ''Need minval < maxval'')
      else Inr (map (\<lambda>i. R k n m i mod m) [0..<n]))"

text \<open>The same with \<^verbatim>\<open>shape=()\<close>: one integer.\<close>

definition stateless_uniform_scalar :: "raw_uniform \<Rightarrow> key \<Rightarrow> nat \<Rightarrow> error + nat" where
  "stateless_uniform_scalar R k m =
     (if m = 0 then Inl (InvalidArgumentError ''Need minval < maxval'')
      else Inr (R k 0 m 0 mod m))"

text \<open>
  \<^verbatim>\<open>tf.random.uniform(..., seed=self.seed)\<close>: the stateful operation, keyed by the seed
  and the number of draws it has made.
\<close>

definition random_uniform ::
  "raw_uniform \<Rightarrow> int \<Rightarrow> nat \<Rightarrow> nat \<Rightarrow> nat \<Rightarrow> error + (nat list \<times> nat)" where
  "random_uniform R sd g n m =
     (case stateless_uniform R (sd, g) n m of
        Inl e \<Rightarrow> Inl e
      | Inr v \<Rightarrow> Inr (v, Suc g))"

text \<open>
  \<^verbatim>\<open>tf.random.Generator.from_seed(seed)\<close> and \<^verbatim>\<open>self._generator.make_seeds()[:, 0]\<close>:
  the generator's state is its counter; each call returns a fresh key and advances it.
\<close>

definition from_seed :: "int \<Rightarrow> nat" where
  "from_seed sd = 0"

definition make_seeds :: "int \<Rightarrow> nat \<Rightarrow> key \<times> nat" where
  "make_seeds sd g = ((sd, g), Suc g)"

text \<open>
  \<^verbatim>\<open>tf.random.stateless_binomial(shape, seed, counts, probs)\<close>: one count per
  sequence, at most the number of trials.
\<close>

definition stateless_binomial :: "raw_binomial \<Rightarrow> key \<Rightarrow> nat list \<Rightarrow> pyfloat \<Rightarrow> nat list" where
  "stateless_binomial B k counts probs =
     map (\<lambda>i. min (B k counts probs i) (counts ! i)) [0..<length counts]"

text \<open>
  \<^verbatim>\<open>tf.map_fn(fn, elems)\<close> over the rows in order, the draw counter threaded through.
\<close>

fun map_fn :: "('x \<Rightarrow> nat \<Rightarrow> error + ('y \<times> nat)) \<Rightarrow> 'x list \<Rightarrow> nat \<Rightarrow> error + ('y list \<times> nat)" where
  "map_fn f [] g = Inr ([], g)"
| "map_fn f (x # xs) g =
     (case f x g of
        Inl e \<Rightarrow> Inl e
      | Inr (y, g') \<Rightarrow>
          (case map_fn f xs g' of
             Inl e \<Rightarrow> Inl e
           | Inr (ys, g'') \<Rightarrow> Inr (y # ys, g'')))"

subsection \<open>Layer attributes\<close>

text \<open>
  The attributes both layers store: those of the Keras base layer (name, trainable,
  dtype) and the seed and skip mechanisms the two constructors share by name.
\<close>

record 'a Layer =
  name :: "string option"
  trainable :: bool
  dtype :: dtype
  seed :: int
  skip_list :: "'a list option"
  skip_fn :: "('a \<Rightarrow> bool) option"

record 'a RandomSwaps = "'a Layer" +
  swaps :: int
  py_skip_fn :: "('a \<Rightarrow> bool) option"

record 'a RandomInsertion = "'a Layer" +
  rate :: pyfloat
  max_insertions :: "int option"
  insertion_list :: "'a list option"
  insertion_fn :: "('a \<Rightarrow> 'a) option"
  insertion_py_fn :: "('a \<Rightarrow> 'a) option"
  skip_py_fn :: "('a \<Rightarrow> bool) option"

text \<open>Python truthiness of an optional list: \<^verbatim>\<open>None\<close> and \<^verbatim>\<open>[]\<close> are false.\<close>

fun truthy_list :: "'a list option \<Rightarrow> bool" where
  "truthy_list None = False"
| "truthy_list (Some []) = False"
| "truthy_list (Some (_ # _)) = True"

text \<open>\<^verbatim>\<open>self.StaticHashTable.lookup(token)\<close>: membership in the skip list, default false.\<close>

definition StaticHashTable_lookup :: "'a list option \<Rightarrow> 'a \<Rightarrow> bool" where
  "StaticHashTable_lookup sl token = (case sl of None \<Rightarrow> False | Some l \<Rightarrow> token \<in> set l)"

subsection \<open>RandomSwaps\<close>

text \<open>
  \<^verbatim>\<open>RandomSwaps.__init__\<close>. \<open>fresh\<close> is the value \<^verbatim>\<open>random.randint(1, 1e9)\<close> returns
  when no seed is given.
\<close>

definition RandomSwaps_init ::
  "int \<Rightarrow> int \<Rightarrow> 'a list option \<Rightarrow> ('a \<Rightarrow> bool) option \<Rightarrow> ('a \<Rightarrow> bool) option \<Rightarrow>
   int option \<Rightarrow> string option \<Rightarrow> kwargs \<Rightarrow> error + 'a RandomSwaps" where
  "RandomSwaps_init fresh swaps' skip_list' skip_fn' py_skip_fn' seed' name' kw =
     (case check_dtype (kw_dtype kw) of
        Inl e \<Rightarrow> Inl e
      | Inr d \<Rightarrow>
          if swaps' < 0 then Inl (ValueError ''Swaps must be non negative'')
          else if count_list [skip_list' = None, skip_fn' = None, py_skip_fn' = None] True < 2
          then Inl (ValueError
                 ''Exactly one of skip_list, skip_fn, py_skip_fn must be provided.'')
          else Inr \<lparr> name = name',
                     trainable = (case kw_trainable kw of None \<Rightarrow> True | Some t \<Rightarrow> t),
                     dtype = d,
                     seed = (case seed' of None \<Rightarrow> fresh | Some s \<Rightarrow> s),
                     skip_list = skip_list',
                     skip_fn = skip_fn',
                     swaps = swaps',
                     py_skip_fn = py_skip_fn' \<rparr>)"

text \<open>
  The skip masks of \<^verbatim>\<open>call\<close> (lines 118-130): one boolean per flat value, or
  \<^verbatim>\<open>None\<close> when no mechanism is active.
\<close>

definition RandomSwaps_skip_masks :: "'a RandomSwaps \<Rightarrow> 'a list \<Rightarrow> bool list option" where
  "RandomSwaps_skip_masks self flat =
     (if truthy_list (skip_list self)
      then Some (map (StaticHashTable_lookup (skip_list self)) flat)
      else case skip_fn self of
             Some f \<Rightarrow> Some (map f flat)
           | None \<Rightarrow>
               (case py_skip_fn self of
                  Some f \<Rightarrow> Some (map f flat)
                | None \<Rightarrow> None))"

text \<open>
  The positions \<^verbatim>\<open>call\<close> hands to \<^verbatim>\<open>_swap\<close> (lines 131-137): the flat indices of
  each row, without those of the skip-protected tokens.
\<close>

definition RandomSwaps_positions :: "'a RandomSwaps \<Rightarrow> 'a list list \<Rightarrow> nat list list" where
  "RandomSwaps_positions self inputs =
     (let positions_flat = [0..<length (flat_values inputs)];
          positions = with_flat_values inputs positions_flat
      in case RandomSwaps_skip_masks self (flat_values inputs) of
           None \<Rightarrow> positions
         | Some skip_masks \<Rightarrow>
             boolean_mask positions (with_flat_values inputs (map Not skip_masks)))"

text \<open>The loop of \<^verbatim>\<open>_swap\<close>: \<open>k\<close> iterations remain.\<close>

fun swap_loop ::
  "raw_uniform \<Rightarrow> int \<Rightarrow> nat \<Rightarrow> nat list \<Rightarrow> nat \<Rightarrow> error + (nat list \<times> nat)" where
  "swap_loop R sd 0 positions g = Inr (positions, g)"
| "swap_loop R sd (Suc k) positions g =
     (case random_uniform R sd g (length positions) (length positions) of
        Inl e \<Rightarrow> Inl e
      | Inr (index, g') \<Rightarrow>
          (case getitem index 0 of
             Inl e \<Rightarrow> Inl e
           | Inr index1 \<Rightarrow>
               (case getitem index 1 of
                  Inl e \<Rightarrow> Inl e
                | Inr index2 \<Rightarrow>
                    (case getitem positions index2 of
                       Inl e \<Rightarrow> Inl e
                     | Inr p2 \<Rightarrow>
                         (case getitem positions index1 of
                            Inl e \<Rightarrow> Inl e
                          | Inr p1 \<Rightarrow>
                              (case tensor_scatter_nd_update positions index1 index2 p2 p1 of
                                 Inl e \<Rightarrow> Inl e
                               | Inr positions' \<Rightarrow> swap_loop R sd k positions' g'))))))"

text \<open>\<^verbatim>\<open>_swap\<close> (lines 139-157).\<close>

definition RandomSwaps_swap ::
  "raw_uniform \<Rightarrow> 'a RandomSwaps \<Rightarrow> nat list \<Rightarrow> nat \<Rightarrow> error + (nat list \<times> nat)" where
  "RandomSwaps_swap R self positions g =
     (if length positions = 1 then Inr (positions, g)
      else swap_loop R (seed self) (nat (swaps self)) positions g)"

text \<open>
  The body of \<^verbatim>\<open>call\<close> once the input is a ragged batch (lines 116-176). The squeezed
  tensor of a rank-1 input is assigned to \<^verbatim>\<open>inputs\<close>; \<^verbatim>\<open>swapped\<close> is what is returned.
\<close>

definition RandomSwaps_call_ragged ::
  "raw_uniform \<Rightarrow> 'a RandomSwaps \<Rightarrow> nat \<Rightarrow> bool \<Rightarrow> 'a list list \<Rightarrow> error + ('a tensor \<times> nat)" where
  "RandomSwaps_call_ragged R self g input_is_1d inputs =
     (let splits = row_splits inputs;
          positions = RandomSwaps_positions self inputs
      in case map_fn (RandomSwaps_swap R self) positions g of
           Inl e \<Rightarrow> Inl e
         | Inr (shuffled, g') \<Rightarrow>
             (case gather (flat_values inputs) (flat_values shuffled) of
                Inl e \<Rightarrow> Inl e
              | Inr vals \<Rightarrow>
                  (case from_row_splits vals splits of
                     Inl e \<Rightarrow> Inl e
                   | Inr swapped \<Rightarrow>
                       (if input_is_1d
                        then (case squeeze swapped of
                                Inl e \<Rightarrow> Inl e
                              | Inr inputs' \<Rightarrow> Inr (Rank2 swapped, g'))
                        else Inr (Rank2 swapped, g')))))"

text \<open>\<^verbatim>\<open>RandomSwaps.call\<close>: \<open>g\<close> is the state of the random operation before the call.\<close>

fun RandomSwaps_call ::
  "raw_uniform \<Rightarrow> 'a RandomSwaps \<Rightarrow> nat \<Rightarrow> 'a tensor \<Rightarrow> error + ('a tensor \<times> nat)" where
  "RandomSwaps_call R self g (Rank1 xs) = RandomSwaps_call_ragged R self g True [xs]"
| "RandomSwaps_call R self g (Rank2 xss) = RandomSwaps_call_ragged R self g False xss"
| "RandomSwaps_call R self g _ = Inl rank_error"

subsection \<open>RandomInsertion\<close>

text \<open>\<^verbatim>\<open>RandomInsertion.__init__\<close>, the checks in the order of the source.\<close>

definition RandomInsertion_init ::
  "int \<Rightarrow> pyfloat \<Rightarrow> int option \<Rightarrow> 'a list option \<Rightarrow> ('a \<Rightarrow> 'a) option \<Rightarrow> ('a \<Rightarrow> 'a) option \<Rightarrow>
   'a list option \<Rightarrow> ('a \<Rightarrow> bool) option \<Rightarrow> ('a \<Rightarrow> bool) option \<Rightarrow>
   int option \<Rightarrow> string option \<Rightarrow> kwargs \<Rightarrow> error + 'a RandomInsertion" where
  "RandomInsertion_init fresh rate' max_insertions' insertion_list' insertion_fn'
       insertion_py_fn' skip_list' skip_fn' skip_py_fn' seed' name' kw =
     (case check_dtype (kw_dtype kw) of
        Inl e \<Rightarrow> Inl e
      | Inr d \<Rightarrow>
          if (case max_insertions' of None \<Rightarrow> False | Some m \<Rightarrow> m < 0)
          then Inl (ValueError ''Insertions must be non negative'')
          else if float_gt rate' 1 \<or> float_lt rate' 0
          then Inl (ValueError ''Rate must be between 0 and 1 (both inclusive).'')
          else if count_list [skip_list' = None, skip_fn' = None, skip_py_fn' = None] True < 2
          then Inl (ValueError
                 ''Exactly one of skip_list, skip_fn, skip_py_fn must be provided.'')
          else if count_list [insertion_list' = None, insertion_fn' = None,
                              insertion_py_fn' = None] True \<noteq> 2
          then Inl (ValueError
                 ''Exactly one of insertion_list, insertion_fn, insertion_py_fn must be provided.'')
          else Inr \<lparr> name = name',
                     trainable = (case kw_trainable kw of None \<Rightarrow> True | Some t \<Rightarrow> t),
                     dtype = d,
                     seed = (case seed' of None \<Rightarrow> fresh | Some s \<Rightarrow> s),
                     skip_list = skip_list',
                     skip_fn = skip_fn',
                     rate = rate',
                     max_insertions = max_insertions',
                     insertion_list = insertion_list',
                     insertion_fn = insertion_fn',
                     insertion_py_fn = insertion_py_fn',
                     skip_py_fn = skip_py_fn' \<rparr>)"

text \<open>\<^verbatim>\<open>_check_skip\<close> (lines 201-218).\<close>

definition RandomInsertion_check_skip :: "'a RandomInsertion \<Rightarrow> 'a \<Rightarrow> bool" where
  "RandomInsertion_check_skip self token =
     (if truthy_list (skip_list self) then StaticHashTable_lookup (skip_list self) token
      else case skip_fn self of
             Some f \<Rightarrow> f token
           | None \<Rightarrow>
               (case skip_py_fn self of
                  Some f \<Rightarrow> f token
                | None \<Rightarrow> False))"

text \<open>
  The number of insertions per sequence (lines 220-230): one binomial draw for the whole
  batch, capped by \<^verbatim>\<open>max_insertions\<close> when it is set.
\<close>

definition RandomInsertion_num_to_select ::
  "raw_binomial \<Rightarrow> 'a RandomInsertion \<Rightarrow> nat \<Rightarrow> 'a list list \<Rightarrow> nat list \<times> nat" where
  "RandomInsertion_num_to_select B self g inputs =
     (let token_counts = map length inputs;
          (k, g') = make_seeds (seed self) g;
          num_to_select = stateless_binomial B k token_counts (rate self);
          num_to_select' =
            (case max_insertions self of
               None \<Rightarrow> num_to_select
             | Some m \<Rightarrow> map (\<lambda>c. nat (min (int c) m)) num_to_select)
      in (num_to_select', g'))"

text \<open>The token to insert (lines 250-277), with the generator state after it.\<close>

definition RandomInsertion_synonym ::
  "raw_uniform \<Rightarrow> 'a RandomInsertion \<Rightarrow> 'a \<Rightarrow> nat \<Rightarrow> error + ('a \<times> nat)" where
  "RandomInsertion_synonym R self original_word g =
     (case insertion_fn self of
        Some f \<Rightarrow> Inr (f original_word, g)
      | None \<Rightarrow>
          (case insertion_list self of
             Some l \<Rightarrow>
               (let (k, g') = make_seeds (seed self) g
                in case stateless_uniform_scalar R k (length l) of
                     Inl e \<Rightarrow> Inl e
                   | Inr synonym_index \<Rightarrow>
                       (case getitem l synonym_index of
                          Inl e \<Rightarrow> Inl e
                        | Inr synonym \<Rightarrow> Inr (synonym, g')))
           | None \<Rightarrow>
               (case insertion_py_fn self of
                  Some f \<Rightarrow> Inr (f original_word, g)
                | None \<Rightarrow> Inl (TypeError ''NoneType object is not callable''))))"

text \<open>
  One iteration of the loop of \<^verbatim>\<open>_insert\<close> (lines 238-286). The boolean tells whether
  the iteration inserted a token; the source does not record it.
\<close>

definition insert_step ::
  "raw_uniform \<Rightarrow> 'a RandomInsertion \<Rightarrow> 'a list \<Rightarrow> nat \<Rightarrow> error + ('a list \<times> nat \<times> bool)" where
  "insert_step R self inputs g =
     (let (k, g1) = make_seeds (seed self) g
      in case stateless_uniform R k (length inputs) (length inputs) of
           Inl e \<Rightarrow> Inl e
         | Inr index \<Rightarrow>
             (case getitem index 0 of
                Inl e \<Rightarrow> Inl e
              | Inr insertion_prompt \<Rightarrow>
                  (case getitem index 1 of
                     Inl e \<Rightarrow> Inl e
                   | Inr insertion_location \<Rightarrow>
                       (case getitem inputs insertion_prompt of
                          Inl e \<Rightarrow> Inl e
                        | Inr original_word \<Rightarrow>
                            if RandomInsertion_check_skip self original_word
                            then Inr (inputs, g1, False)
                            else (case RandomInsertion_synonym R self original_word g1 of
                                    Inl e \<Rightarrow> Inl e
                                  | Inr (synonym, g2) \<Rightarrow>
                                      Inr (take (insertion_location + 1) inputs @ [synonym]
                                             @ drop (insertion_location + 1) inputs,
                                           g2, True))))))"

text \<open>
  The loop of \<^verbatim>\<open>_insert\<close>: \<open>n\<close> iterations remain. Beside the sequence it returns the
  number of iterations that inserted a token.
\<close>

fun insert_loop ::
  "raw_uniform \<Rightarrow> 'a RandomInsertion \<Rightarrow> nat \<Rightarrow> 'a list \<Rightarrow> nat \<Rightarrow> error + (('a list \<times> nat) \<times> nat)" where
  "insert_loop R self 0 inputs g = Inr ((inputs, 0), g)"
| "insert_loop R self (Suc n) inputs g =
     (case insert_step R self inputs g of
        Inl e \<Rightarrow> Inl e
      | Inr (inputs', g', inserted) \<Rightarrow>
          (case insert_loop R self n inputs' g' of
             Inl e \<Rightarrow> Inl e
           | Inr ((out, c), g'') \<Rightarrow> Inr ((out, if inserted then Suc c else c), g'')))"

text \<open>\<^verbatim>\<open>_insert\<close> (lines 232-287).\<close>

definition RandomInsertion_insert ::
  "raw_uniform \<Rightarrow> 'a RandomInsertion \<Rightarrow> 'a list \<times> nat \<Rightarrow> nat \<Rightarrow> error + (('a list \<times> nat) \<times> nat)" where
  "RandomInsertion_insert R self x g = (case x of (inputs, num_to_select) \<Rightarrow>
     insert_loop R self num_to_select inputs g)"

text \<open>
  The body of \<^verbatim>\<open>call\<close> on a ragged batch (lines 220-296): every output sequence comes
  with the number of tokens inserted into it.
\<close>

definition RandomInsertion_call_ragged ::
  "raw_uniform \<Rightarrow> raw_binomial \<Rightarrow> 'a RandomInsertion \<Rightarrow> nat \<Rightarrow> 'a list list \<Rightarrow>
   error + (('a list \<times> nat) list \<times> nat)" where
  "RandomInsertion_call_ragged R B self g inputs =
     (case RandomInsertion_num_to_select B self g inputs of (num_to_select, g1) \<Rightarrow>
        map_fn (RandomInsertion_insert R self) (zip inputs num_to_select) g1)"

text \<open>\<^verbatim>\<open>RandomInsertion.call\<close>: \<open>g\<close> is the state of \<^verbatim>\<open>self._generator\<close> before the call.\<close>

fun RandomInsertion_call ::
  "raw_uniform \<Rightarrow> raw_binomial \<Rightarrow> 'a RandomInsertion \<Rightarrow> nat \<Rightarrow> 'a tensor \<Rightarrow>
   error + ('a tensor \<times> nat)" where
  "RandomInsertion_call R B self g (Rank1 xs) =
     (case RandomInsertion_call_ragged R B self g [xs] of
        Inl e \<Rightarrow> Inl e
      | Inr (inserted, g') \<Rightarrow>
          (case squeeze (map fst inserted) of
             Inl e \<Rightarrow> Inl e
           | Inr inserted' \<Rightarrow> Inr (inserted', g')))"
| "RandomInsertion_call R B self g (Rank2 xss) =
     (case RandomInsertion_call_ragged R B self g xss of
        Inl e \<Rightarrow> Inl e
      | Inr (inserted, g') \<Rightarrow> Inr (Rank2 (map fst inserted), g'))"
| "RandomInsertion_call R B self g _ = Inl rank_error"

subsection \<open>The two call patterns of the tests\<close>

text \<open>
  \<^verbatim>\<open>test_augment_first_batch_second\<close> maps the layer over the sequences of the dataset
  one by one, each as a rank-1 tensor, before the results are batched;
  \<^verbatim>\<open>test_batch_first_augment_second\<close> calls it once on the batch. \<open>call\<close> is the
  layer's \<^verbatim>\<open>call\<close> with everything but the state and the input fixed. The first
  pattern returns the per-sequence results as the calls return them, in order.
\<close>

definition augment_first_batch_second ::
  "(nat \<Rightarrow> 'a tensor \<Rightarrow> error + ('a tensor \<times> nat)) \<Rightarrow> nat \<Rightarrow> 'a list list \<Rightarrow>
   error + ('a tensor list \<times> nat)" where
  "augment_first_batch_second call g xss = map_fn (\<lambda>xs g'. call g' (Rank1 xs)) xss g"

definition batch_first_augment_second ::
  "(nat \<Rightarrow> 'a tensor \<Rightarrow> error + ('a tensor \<times> nat)) \<Rightarrow> nat \<Rightarrow> 'a list list \<Rightarrow>
   error + ('a tensor \<times> nat)" where
  "batch_first_augment_second call g xss = call g (Rank2 xss)"

subsection \<open>Configuration export and import\<close>

text \<open>
  A configuration is a Python dict with string keys, in insertion order. Function-valued
  parameters are stored as the function objects themselves.
\<close>

datatype 'a config_value =
    CNone
  | CBool bool
  | CInt int
  | CFloat pyfloat
  | CString string
  | CDtype dtype
  | CList "'a list"
  | CPredicate "'a \<Rightarrow> bool"
  | CFunction "'a \<Rightarrow> 'a"

type_synonym 'a config = "(string \<times> 'a config_value) list"

text \<open>\<^verbatim>\<open>config.update(new)\<close>.\<close>

definition dict_update :: "'a config \<Rightarrow> 'a config \<Rightarrow> 'a config" where
  "dict_update config new = fold (\<lambda>(k, v). AList.update k v) new config"

definition config_opt :: "('b \<Rightarrow> 'a config_value) \<Rightarrow> 'b option \<Rightarrow> 'a config_value" where
  "config_opt c v = (case v of None \<Rightarrow> CNone | Some x \<Rightarrow> c x)"

text \<open>\<^verbatim>\<open>super().get_config()\<close>: what the Keras base layer exports.\<close>

definition Layer_get_config :: "('a, 'm) Layer_scheme \<Rightarrow> 'a config" where
  "Layer_get_config self =
     [(''name'', config_opt CString (name self)),
      (''trainable'', CBool (trainable self)),
      (''dtype'', CDtype (dtype self))]"

text \<open>\<^verbatim>\<open>RandomSwaps.get_config\<close> (lines 178-186).\<close>

definition RandomSwaps_get_config :: "'a RandomSwaps \<Rightarrow> 'a config" where
  "RandomSwaps_get_config self =
     dict_update (Layer_get_config self)
       [(''swaps'', CInt (swaps self)),
        (''seed'', CInt (seed self))]"

text \<open>\<^verbatim>\<open>RandomInsertion.get_config\<close> (lines 302-317).\<close>

definition RandomInsertion_get_config :: "'a RandomInsertion \<Rightarrow> 'a config" where
  "RandomInsertion_get_config self =
     dict_update (Layer_get_config self)
       [(''rate'', CFloat (rate self)),
        (''max_insertions'', config_opt CInt (max_insertions self)),
        (''insertion_list'', config_opt CList (insertion_list self)),
        (''insertion_fn'', config_opt CFunction (insertion_fn self)),
        (''insertion_py_fn'', config_opt CFunction (insertion_py_fn self)),
        (''skip_list'', config_opt CList (skip_list self)),
        (''skip_fn'', config_opt CPredicate (skip_fn self)),
        (''skip_py_fn'', config_opt CPredicate (skip_py_fn self)),
        (''seed'', CInt (seed self))]"

text \<open>
  Reading a keyword argument out of a configuration: an absent key and \<^verbatim>\<open>None\<close> give
  the parameter's default \<^verbatim>\<open>None\<close>; a value of a type the parameter does not take is
  rejected.
\<close>

fun the_int :: "'a config_value \<Rightarrow> int option" where
  "the_int (CInt i) = Some i"
| "the_int _ = None"

fun the_number :: "'a config_value \<Rightarrow> pyfloat option" where
  "the_number (CFloat r) = Some r"
| "the_number (CInt i) = Some (Finite (real_of_int i))"
| "the_number _ = None"

fun the_bool :: "'a config_value \<Rightarrow> bool option" where
  "the_bool (CBool b) = Some b"
| "the_bool _ = None"

fun the_string :: "'a config_value \<Rightarrow> string option" where
  "the_string (CString s) = Some s"
| "the_string _ = None"

fun the_list :: "'a config_value \<Rightarrow> 'a list option" where
  "the_list (CList l) = Some l"
| "the_list _ = None"

fun the_predicate :: "'a config_value \<Rightarrow> ('a \<Rightarrow> bool) option" where
  "the_predicate (CPredicate f) = Some f"
| "the_predicate _ = None"

fun the_function :: "'a config_value \<Rightarrow> ('a \<Rightarrow> 'a) option" where
  "the_function (CFunction f) = Some f"
| "the_function _ = None"

fun arg :: "('a config_value \<Rightarrow> 'b option) \<Rightarrow> 'a config_value option \<Rightarrow> error + 'b option" where
  "arg prj None = Inr None"
| "arg prj (Some CNone) = Inr None"
| "arg prj (Some v) =
     (case prj v of
        None \<Rightarrow> Inl (TypeError ''argument of an unsupported type'')
      | Some x \<Rightarrow> Inr (Some x))"

fun arg_dtype :: "'a config_value option \<Rightarrow> error + dtype option option" where
  "arg_dtype None = Inr None"
| "arg_dtype (Some CNone) = Inr (Some None)"
| "arg_dtype (Some (CDtype d)) = Inr (Some (Some d))"
| "arg_dtype (Some _) = Inl (TypeError ''Cannot convert value to a TensorFlow DType'')"

definition required :: "'b option \<Rightarrow> error + 'b" where
  "required v =
     (case v of
        None \<Rightarrow> Inl (TypeError ''missing a required argument'')
      | Some x \<Rightarrow> Inr x)"

text \<open>
  \<^verbatim>\<open>RandomSwaps.from_config(config)\<close>, inherited from Keras: \<^verbatim>\<open>cls(**config)\<close>. A key
  that is neither a parameter of \<^verbatim>\<open>__init__\<close> nor a keyword of the base layer is
  refused.
\<close>

definition RandomSwaps_from_config :: "int \<Rightarrow> 'a config \<Rightarrow> error + 'a RandomSwaps" where
  "RandomSwaps_from_config fresh config =
     (if \<exists>k \<in> set (map fst config).
           k \<notin> set [''swaps'', ''skip_list'', ''skip_fn'', ''py_skip_fn'', ''seed'',
                     ''name'', ''dtype'', ''trainable'']
      then Inl (TypeError ''Keyword argument not understood'')
      else
        bind_err (bind_err (arg the_int (map_of config ''swaps'')) required) (\<lambda>a_swaps.
        bind_err (arg the_list (map_of config ''skip_list'')) (\<lambda>a_skip_list.
        bind_err (arg the_predicate (map_of config ''skip_fn'')) (\<lambda>a_skip_fn.
        bind_err (arg the_predicate (map_of config ''py_skip_fn'')) (\<lambda>a_py_skip_fn.
        bind_err (arg the_int (map_of config ''seed'')) (\<lambda>a_seed.
        bind_err (arg the_string (map_of config ''name'')) (\<lambda>a_name.
        bind_err (arg_dtype (map_of config ''dtype'')) (\<lambda>a_dtype.
        bind_err (arg the_bool (map_of config ''trainable'')) (\<lambda>a_trainable.
          RandomSwaps_init fresh a_swaps a_skip_list a_skip_fn a_py_skip_fn a_seed a_name
            \<lparr> kw_dtype = a_dtype, kw_trainable = a_trainable \<rparr>)))))))))"

text \<open>\<^verbatim>\<open>RandomInsertion.from_config(config)\<close>, likewise.\<close>

definition RandomInsertion_from_config :: "int \<Rightarrow> 'a config \<Rightarrow> error + 'a RandomInsertion" where
  "RandomInsertion_from_config fresh config =
     (if \<exists>k \<in> set (map fst config).
           k \<notin> set [''rate'', ''max_insertions'', ''insertion_list'', ''insertion_fn'',
                     ''insertion_py_fn'', ''skip_list'', ''skip_fn'', ''skip_py_fn'',
                     ''seed'', ''name'', ''dtype'', ''trainable'']
      then Inl (TypeError ''Keyword argument not understood'')
      else
        bind_err (bind_err (arg the_number (map_of config ''rate'')) required) (\<lambda>a_rate.
        bind_err (arg the_int (map_of config ''max_insertions'')) (\<lambda>a_max_insertions.
        bind_err (arg the_list (map_of config ''insertion_list'')) (\<lambda>a_insertion_list.
        bind_err (arg the_function (map_of config ''insertion_fn'')) (\<lambda>a_insertion_fn.
        bind_err (arg the_function (map_of config ''insertion_py_fn'')) (\<lambda>a_insertion_py_fn.
        bind_err (arg the_list (map_of config ''skip_list'')) (\<lambda>a_skip_list.
        bind_err (arg the_predicate (map_of config ''skip_fn'')) (\<lambda>a_skip_fn.
        bind_err (arg the_predicate (map_of config ''skip_py_fn'')) (\<lambda>a_skip_py_fn.
        bind_err (arg the_int (map_of config ''seed'')) (\<lambda>a_seed.
        bind_err (arg the_string (map_of config ''name'')) (\<lambda>a_name.
        bind_err (arg_dtype (map_of config ''dtype'')) (\<lambda>a_dtype.
        bind_err (arg the_bool (map_of config ''trainable'')) (\<lambda>a_trainable.
          RandomInsertion_init fresh a_rate a_max_insertions a_insertion_list a_insertion_fn
            a_insertion_py_fn a_skip_list a_skip_fn a_skip_py_fn a_seed a_name
            \<lparr> kw_dtype = a_dtype, kw_trainable = a_trainable \<rparr>)))))))))))))"

section \<open>Construction\<close>

lemma RandomInsertion_init_raises:
  "isl (RandomInsertion_init fresh r mi il ifn ipf sl sf spf sd nm kw) \<longleftrightarrow>
     isl (check_dtype (kw_dtype kw)) \<or> (\<exists>m. mi = Some m \<and> m < 0) \<or> float_gt r 1 \<or> float_lt r 0 \<or>
     2 \<le> length (filter id [sl \<noteq> None, sf \<noteq> None, spf \<noteq> None]) \<or>
     length (filter id [il \<noteq> None, ifn \<noteq> None, ipf \<noteq> None]) \<noteq> 1"
proof (cases "check_dtype (kw_dtype kw)")
  case (Inl e)
  then show ?thesis by (simp add: RandomInsertion_init_def)
next
  case (Inr d)
  show ?thesis
  proof (cases mi)
    case None
    then show ?thesis using Inr
      by (cases sl; cases sf; cases spf; cases il; cases ifn; cases ipf)
         (simp_all add: RandomInsertion_init_def)
  next
    case (Some m)
    then show ?thesis using Inr
      by (cases sl; cases sf; cases spf; cases il; cases ifn; cases ipf)
         (simp_all add: RandomInsertion_init_def)
  qed
qed

lemma RandomSwaps_init_raises:
  "isl (RandomSwaps_init fresh sw sl sf pf sd nm kw) \<longleftrightarrow>
     isl (check_dtype (kw_dtype kw)) \<or> sw < 0 \<or>
     2 \<le> length (filter id [sl \<noteq> None, sf \<noteq> None, pf \<noteq> None])"
  by (cases "check_dtype (kw_dtype kw)"; cases sl; cases sf; cases pf)
     (simp_all add: RandomSwaps_init_def)

text \<open>
  Claim C10. A dtype argument that is neither an integer type nor string makes both
  constructors raise the dtype \<^verbatim>\<open>ValueError\<close>, whatever the other arguments are (so
  before any other check); with the dtype omitted or \<^verbatim>\<open>None\<close> construction goes on
  exactly as with \<^verbatim>\<open>tf.int32\<close>, which is the dtype of the layer it builds.
\<close>

theorem dtype_checked_first:
  "(kw_dtype kw = Some (Some d) \<and> \<not> is_integer d \<and> d \<noteq> DT_STRING \<longrightarrow>
      RandomSwaps_init fresh sw sl sf pf sd nm kw =
        Inl (ValueError ''Output dtype must be an integer type or a string.'') \<and>
      RandomInsertion_init fresh r mi il ifn ipf sl sf spf sd nm kw =
        Inl (ValueError ''Output dtype must be an integer type or a string.'')) \<and>
   (kw_dtype kw = None \<or> kw_dtype kw = Some None \<longrightarrow>
      RandomSwaps_init fresh sw sl sf pf sd nm kw =
        RandomSwaps_init fresh sw sl sf pf sd nm (kw\<lparr>kw_dtype := Some (Some DT_INT32)\<rparr>) \<and>
      RandomInsertion_init fresh r mi il ifn ipf sl sf spf sd nm kw =
        RandomInsertion_init fresh r mi il ifn ipf sl sf spf sd nm
          (kw\<lparr>kw_dtype := Some (Some DT_INT32)\<rparr>) \<and>
      (\<forall>self. RandomSwaps_init fresh sw sl sf pf sd nm kw = Inr self \<longrightarrow> dtype self = DT_INT32) \<and>
      (\<forall>self. RandomInsertion_init fresh r mi il ifn ipf sl sf spf sd nm kw = Inr self
          \<longrightarrow> dtype self = DT_INT32))"
  by (auto simp: RandomSwaps_init_def RandomInsertion_init_def dtype_error_def split: if_splits)

theorem dtype_checked_first_witness:
  "RandomSwaps_init 7 (-1) (Some [''a'']) (Some (\<lambda>t. True)) None None None
      \<lparr>kw_dtype = Some (Some DT_FLOAT), kw_trainable = None\<rparr> =
     Inl (ValueError ''Output dtype must be an integer type or a string.'') \<and>
   RandomInsertion_init 7 (Finite 2) (Some (-1)) None None None (Some [''a'']) (Some (\<lambda>t. True)) None
      None None \<lparr>kw_dtype = Some (Some DT_FLOAT), kw_trainable = None\<rparr> =
     Inl (ValueError ''Output dtype must be an integer type or a string.'') \<and>
   (\<exists>self. RandomSwaps_init 7 1 (None :: string list option) None None (Some 42) None
      \<lparr>kw_dtype = None, kw_trainable = None\<rparr> = Inr self \<and> dtype self = DT_INT32) \<and>
   (\<exists>self. RandomInsertion_init 7 (Finite (1/2)) None (Some [''wind'']) None None None None None
      (Some 42) None \<lparr>kw_dtype = Some None, kw_trainable = None\<rparr> = Inr self \<and>
      dtype self = DT_INT32)"
  using
    dtype_checked_first [of "\<lparr>kw_dtype = Some (Some DT_FLOAT), kw_trainable = None\<rparr>" DT_FLOAT
      7 "-1" "Some [''a'']" "Some (\<lambda>t. True)" None None None "Finite 2" "Some (-1)" None None None None]
    dtype_checked_first [of "\<lparr>kw_dtype = None, kw_trainable = None\<rparr>" DT_INT32
      7 1 "None :: string list option" None None "Some 42" None "Finite (1/2)" None "Some [''wind'']"
      None None None]
    dtype_checked_first [of "\<lparr>kw_dtype = Some None, kw_trainable = None\<rparr>" DT_INT32
      7 1 "None :: string list option" None None "Some 42" None "Finite (1/2)" None "Some [''wind'']"
      None None None]
  by (simp add: RandomSwaps_init_def RandomInsertion_init_def)

lemma nan_rate_accepted:
  "\<not> isl (RandomInsertion_init 7 NaN (Some 2) (Some [''wind'']) None None None None None
         (Some 42) None \<lparr>kw_dtype = None, kw_trainable = None\<rparr>)"
  by (simp add: RandomInsertion_init_def)

lemma rate_check:
  "r \<noteq> NaN \<Longrightarrow> float_gt r 1 \<or> float_lt r 0 \<longleftrightarrow> \<not> (\<exists>x. r = Finite x \<and> 0 \<le> x \<and> x \<le> 1)"
  by (cases r) auto

lemma check_dtype_raises:
  "isl (check_dtype k) \<longleftrightarrow> (\<exists>d. k = Some (Some d) \<and> \<not> is_integer d \<and> d \<noteq> DT_STRING)"
  by (cases k rule: check_dtype.cases) auto

text \<open>
  Claim C6 as stated fails: it lists the parameters whose validity is to make
  construction succeed, and the dtype is not among them. The dtype check runs ahead of
  every other one, so with every listed parameter valid and \<^verbatim>\<open>dtype=tf.float32\<close> both
  constructors raise.
\<close>

theorem construction_fails_on_float_dtype:
  "RandomInsertion_init 7 (Finite (2/5)) (Some 2) (Some [''wind'']) None None
      (Some [''like'']) None None (Some 42) None
      \<lparr>kw_dtype = Some (Some DT_FLOAT), kw_trainable = None\<rparr> =
     Inl (ValueError ''Output dtype must be an integer type or a string.'') \<and>
   RandomSwaps_init 7 3 (Some [''like'']) None None (Some 42) None
      \<lparr>kw_dtype = Some (Some DT_FLOAT), kw_trainable = None\<rparr> =
     Inl (ValueError ''Output dtype must be an integer type or a string.'')"
  by (simp add: RandomInsertion_init_def RandomSwaps_init_def dtype_error_def)

text \<open>
  Claim C6, amended. For a rate that is not NaN, construction of the insertion layer
  raises exactly when the dtype is given and is neither an integer type nor string, or
  \<^verbatim>\<open>max_insertions\<close> is negative, or the rate is not a number in \<open>[0, 1]\<close>, or two or
  more skip mechanisms are supplied, or the number of insertion mechanisms supplied is
  not one. Construction of the swap layer raises exactly when the dtype is given and is
  neither an integer type nor string, or \<^verbatim>\<open>swaps\<close> is negative, or two or more skip
  mechanisms are supplied. In all other cases construction succeeds. Nothing is said of
  a NaN rate, which passes both comparisons of the source (\<open>nan_rate_accepted\<close>).
\<close>

theorem construction_validation:
  "(r \<noteq> NaN \<longrightarrow>
      (isl (RandomInsertion_init fresh r mi il ifn ipf sl sf spf sd nm kw) \<longleftrightarrow>
         (\<exists>d. kw_dtype kw = Some (Some d) \<and> \<not> is_integer d \<and> d \<noteq> DT_STRING) \<or>
         (\<exists>m. mi = Some m \<and> m < 0) \<or>
         \<not> (\<exists>x. r = Finite x \<and> 0 \<le> x \<and> x \<le> 1) \<or>
         2 \<le> length (filter id [sl \<noteq> None, sf \<noteq> None, spf \<noteq> None]) \<or>
         length (filter id [il \<noteq> None, ifn \<noteq> None, ipf \<noteq> None]) \<noteq> 1)) \<and>
   (isl (RandomSwaps_init fresh sw sl' sf' pf sd' nm' kw') \<longleftrightarrow>
      (\<exists>d. kw_dtype kw' = Some (Some d) \<and> \<not> is_integer d \<and> d \<noteq> DT_STRING) \<or> sw < 0 \<or>
      2 \<le> length (filter id [sl' \<noteq> None, sf' \<noteq> None, pf \<noteq> None]))"
  using RandomInsertion_init_raises [of fresh r mi il ifn ipf sl sf spf sd nm kw]
    RandomSwaps_init_raises [of fresh sw sl' sf' pf sd' nm' kw']
    rate_check [of r] check_dtype_raises [of "kw_dtype kw"] check_dtype_raises [of "kw_dtype kw'"]
  by blast

theorem construction_validation_witness:
  "isl (RandomInsertion_init 7 (Finite (3/2)) (Some 2) (Some [''wind'']) None None None None None
         (Some 42) None \<lparr>kw_dtype = None, kw_trainable = None\<rparr>) \<and>
   \<not> isl (RandomInsertion_init 7 (Finite (2/5)) (Some 2) (Some [''wind'']) None None
         (Some [''like'']) None None (Some 42) None
         \<lparr>kw_dtype = Some (Some DT_STRING), kw_trainable = None\<rparr>) \<and>
   isl (RandomSwaps_init 7 (-1) (None :: string list option) None None (Some 42) None
         \<lparr>kw_dtype = None, kw_trainable = None\<rparr>) \<and>
   \<not> isl (RandomSwaps_init 7 3 (None :: string list option) None None (Some 42) None
         \<lparr>kw_dtype = Some (Some DT_STRING), kw_trainable = None\<rparr>)"
proof -
  have a: "\<exists>x::real. Finite (2/5) = Finite x \<and> 0 \<le> x \<and> x \<le> 1"
    by (intro exI [of _ "2/5"]) simp
  have b: "\<not> (\<exists>x::real. Finite (3/2) = Finite x \<and> 0 \<le> x \<and> x \<le> 1)"
    by auto
  show ?thesis
  using a b
    construction_validation [of "Finite (3/2)" 7 "Some 2" "Some [''wind'']" None None
      "None :: string list option" None None "Some 42" None
      "\<lparr>kw_dtype = None, kw_trainable = None\<rparr>" "-1" "None :: string list option" None None
      "Some 42" None "\<lparr>kw_dtype = None, kw_trainable = None\<rparr>"]
    construction_validation [of "Finite (2/5)" 7 "Some 2" "Some [''wind'']" None None
      "Some [''like'']" None None "Some 42" None
      "\<lparr>kw_dtype = Some (Some DT_STRING), kw_trainable = None\<rparr>" 3
      "None :: string list option" None None
      "Some 42" None "\<lparr>kw_dtype = Some (Some DT_STRING), kw_trainable = None\<rparr>"]
  by simp
qed

lemma swaps_no_skip:
  "RandomSwaps_init fresh sw None None None sd nm kw = Inr self \<Longrightarrow>
     RandomSwaps_skip_masks self flat = None \<and>
     RandomSwaps_positions self inputs =
       with_flat_values inputs [0..<length (flat_values inputs)]"
  by (auto simp: RandomSwaps_init_def RandomSwaps_skip_masks_def RandomSwaps_positions_def
      split: sum.splits if_splits)

lemma insertion_no_skip:
  "RandomInsertion_init fresh r mi il ifn ipf None None None sd nm kw = Inr self \<Longrightarrow>
     \<not> RandomInsertion_check_skip self token"
  by (auto simp: RandomInsertion_init_def RandomInsertion_check_skip_def
      split: sum.splits if_splits)

text \<open>
  Claim C5. Supplying two or more of the three skip mechanisms makes either constructor
  raise. With none of them supplied (and the other arguments valid) construction succeeds,
  and the layer it builds protects no token: the swap layer computes no skip mask and
  keeps every position of every input, the insertion layer's \<^verbatim>\<open>_check_skip\<close> is false
  for every token.
\<close>

theorem skip_mechanism_contract:
  "(2 \<le> length (filter id [sl \<noteq> None, sf \<noteq> None, pf \<noteq> None]) \<longrightarrow>
      isl (RandomSwaps_init fresh sw sl sf pf sd nm kw) \<and>
      isl (RandomInsertion_init fresh r mi il ifn ipf sl sf pf sd nm kw)) \<and>
   (\<not> isl (check_dtype (kw_dtype kw)) \<and> 0 \<le> sw \<longrightarrow>
      (\<exists>self. RandomSwaps_init fresh sw None None None sd nm kw = Inr self \<and>
         (\<forall>flat :: 'a list. RandomSwaps_skip_masks self flat = None) \<and>
         (\<forall>inputs. RandomSwaps_positions self inputs =
            with_flat_values inputs [0..<length (flat_values inputs)]))) \<and>
   (\<not> isl (check_dtype (kw_dtype kw)) \<and> \<not> float_gt r 1 \<and> \<not> float_lt r 0 \<and> (\<forall>m. mi = Some m \<longrightarrow> 0 \<le> m) \<and>
    length (filter id [il \<noteq> None, ifn \<noteq> None, ipf \<noteq> None]) = 1 \<longrightarrow>
      (\<exists>self. RandomInsertion_init fresh r mi il ifn ipf None None None sd nm kw = Inr self \<and>
         (\<forall>token :: 'a. \<not> RandomInsertion_check_skip self token)))"
proof (intro conjI impI)
  assume "2 \<le> length (filter id [sl \<noteq> None, sf \<noteq> None, pf \<noteq> None])"
  then show "isl (RandomSwaps_init fresh sw sl sf pf sd nm kw)"
    and "isl (RandomInsertion_init fresh r mi il ifn ipf sl sf pf sd nm kw)"
    by (simp_all only: RandomSwaps_init_raises RandomInsertion_init_raises simp_thms)
next
  assume a: "\<not> isl (check_dtype (kw_dtype kw)) \<and> 0 \<le> sw"
  have "\<not> isl (RandomSwaps_init fresh sw (None :: 'a list option) None None sd nm kw)"
    using a by (simp add: RandomSwaps_init_raises)
  then obtain self where s: "RandomSwaps_init fresh sw (None :: 'a list option) None None sd nm kw = Inr self"
    by (cases "RandomSwaps_init fresh sw (None :: 'a list option) None None sd nm kw") auto
  show "\<exists>self. RandomSwaps_init fresh sw None None None sd nm kw = Inr self \<and>
         (\<forall>flat :: 'a list. RandomSwaps_skip_masks self flat = None) \<and>
         (\<forall>inputs. RandomSwaps_positions self inputs =
            with_flat_values inputs [0..<length (flat_values inputs)])"
    using s swaps_no_skip [OF s] by blast
next
  assume a: "\<not> isl (check_dtype (kw_dtype kw)) \<and> \<not> float_gt r 1 \<and> \<not> float_lt r 0 \<and> (\<forall>m. mi = Some m \<longrightarrow> 0 \<le> m) \<and>
    length (filter id [il \<noteq> None, ifn \<noteq> None, ipf \<noteq> None]) = 1"
  have "\<not> isl (RandomInsertion_init fresh r mi il ifn ipf (None :: 'a list option) None None sd nm kw)"
    using a by (auto simp add: RandomInsertion_init_raises)
  then obtain self where s: "RandomInsertion_init fresh r mi il ifn ipf (None :: 'a list option) None None sd nm kw = Inr self"
    by (cases "RandomInsertion_init fresh r mi il ifn ipf (None :: 'a list option) None None sd nm kw") auto
  show "\<exists>self. RandomInsertion_init fresh r mi il ifn ipf None None None sd nm kw = Inr self \<and>
         (\<forall>token :: 'a. \<not> RandomInsertion_check_skip self token)"
    using s insertion_no_skip [OF s] by blast
qed

theorem skip_mechanism_contract_witness:
  "isl (RandomSwaps_init 7 3 (Some [''like'']) (Some (\<lambda>t. t = ''like'')) None (Some 42) None
         \<lparr>kw_dtype = None, kw_trainable = None\<rparr>) \<and>
   isl (RandomInsertion_init 7 (Finite (2/5)) (Some 2) (Some [''wind'']) None None
         (Some [''like'']) (Some (\<lambda>t. t = ''like'')) None (Some 42) None
         \<lparr>kw_dtype = None, kw_trainable = None\<rparr>) \<and>
   (\<exists>self. RandomSwaps_init 7 3 None None None (Some 42) None
         \<lparr>kw_dtype = None, kw_trainable = None\<rparr> = Inr self \<and>
      RandomSwaps_skip_masks self [''Hey'', ''I'', ''like''] = None \<and>
      RandomSwaps_positions self [[''Hey'', ''I'', ''like'']] = [[0, 1, 2]]) \<and>
   (\<exists>self. RandomInsertion_init 7 (Finite (2/5)) (Some 2) (Some [''wind'']) None None None None None
         (Some 42) None \<lparr>kw_dtype = None, kw_trainable = None\<rparr> = Inr self \<and>
      \<not> RandomInsertion_check_skip self ''like'')"
proof -
  have w: "with_flat_values [[''Hey'', ''I'', ''like'']]
             [0..<length (flat_values [[''Hey'', ''I'', ''like'']])] = [[0, 1, 2]]"
    by (simp add: with_flat_values_def flat_values_def upt_rec)
  show ?thesis
    using skip_mechanism_contract [of "Some [''like'']" "Some (\<lambda>t. t = ''like'')" None 7 3
        "Some 42" None "\<lparr>kw_dtype = None, kw_trainable = None\<rparr>" "Finite (2/5)" "Some 2"
        "Some [''wind'']" None None] w
    by (auto simp: numeral_eq_Suc)
qed

section \<open>Insertion\<close>

lemma getitem_Inr: "getitem t i = Inr x \<longleftrightarrow> i < length t \<and> x = t ! i"
  by (auto simp: getitem_def)

lemma map_fn_all2:
  assumes "\<And>x g y g'. x \<in> set xs \<Longrightarrow> f x g = Inr (y, g') \<Longrightarrow> P x y"
  shows "map_fn f xs g = Inr (ys, g') \<Longrightarrow> list_all2 P xs ys"
  using assms
proof (induction xs arbitrary: g ys)
  case Nil
  then show ?case by simp
next
  case (Cons x xs)
  from Cons.prems(1) obtain y g1 ys1 where
    fx: "f x g = Inr (y, g1)" and r: "map_fn f xs g1 = Inr (ys1, g')" and ys: "ys = y # ys1"
    by (auto split: sum.splits prod.splits)
  have "P x y" using Cons.prems(2) fx by simp
  moreover have "list_all2 P xs ys1" using Cons.IH [OF r] Cons.prems(2) by simp
  ultimately show ?case using ys by simp
qed

lemma map_fn_total:
  assumes "\<And>x g. x \<in> set xs \<Longrightarrow> \<exists>y g'. f x g = Inr (y, g')"
  shows "\<exists>ys g'. map_fn f xs g = Inr (ys, g')"
  using assms
proof (induction xs arbitrary: g)
  case Nil
  then show ?case by simp
next
  case (Cons x xs)
  obtain y g1 where fx: "f x g = Inr (y, g1)" using Cons.prems [of x g] by auto
  obtain ys g2 where r: "map_fn f xs g1 = Inr (ys, g2)"
    using Cons.IH [of g1] Cons.prems by auto
  show ?case using fx r by simp
qed

lemma stateless_uniform_Inr:
  "stateless_uniform R k n m = Inr index \<Longrightarrow>
     length index = n \<and> (\<forall>i < n. index ! i < m)"
  by (auto simp: stateless_uniform_def split: if_splits)

lemma stateless_uniform_nth:
  "stateless_uniform R k n m = Inr index \<Longrightarrow> i < n \<Longrightarrow> index ! i < m"
  using stateless_uniform_Inr by blast

lemma stateless_uniform_total:
  "0 < m \<or> n = 0 \<Longrightarrow> \<exists>index. stateless_uniform R k n m = Inr index"
  by (auto simp: stateless_uniform_def)

lemma insert_step_skip:
  assumes "stateless_uniform R (seed self, g) (length inputs) (length inputs) = Inr index"
    and "1 < length index"
    and "RandomInsertion_check_skip self (inputs ! (index ! 0))"
  shows "insert_step R self inputs g = Inr (inputs, Suc g, False)"
proof -
  have l: "length index = length inputs" using stateless_uniform_Inr [OF assms(1)] by simp
  then have p: "0 < length inputs" using assms(2) by (cases inputs) simp_all
  have "index ! 0 < length inputs" "0 < length index"
    using stateless_uniform_nth [OF assms(1) p] l p by simp_all
  then show ?thesis using assms
    by (simp add: insert_step_def make_seeds_def getitem_def)
qed

lemma insert_step_length:
  assumes "insert_step R self inputs g = Inr (out, g', inserted)"
  shows "length out = length inputs + (if inserted then 1 else 0)"
    and "\<not> inserted \<Longrightarrow> out = inputs \<and> g' = Suc g"
    and "2 \<le> length inputs"
  using assms
  by (auto simp: insert_step_def make_seeds_def getitem_Inr Let_def
      dest!: stateless_uniform_Inr split: sum.splits if_splits prod.splits)

lemma insert_loop_length:
  "insert_loop R self n inputs g = Inr ((out, c), g') \<Longrightarrow>
     length out = length inputs + c \<and> c \<le> n"
proof (induction n arbitrary: inputs g out c)
  case 0
  then show ?case by simp
next
  case (Suc n)
  from Suc.prems obtain mid g1 b c1 where
    st: "insert_step R self inputs g = Inr (mid, g1, b)"
    and lp: "insert_loop R self n mid g1 = Inr ((out, c1), g')"
    and c: "c = (if b then Suc c1 else c1)"
    by (auto split: sum.splits prod.splits)
  from insert_step_length(1) [OF st] Suc.IH [OF lp] c show ?case by auto
qed

lemma synonym_total:
  assumes "insertion_fn self \<noteq> None \<or>
           (case insertion_list self of Some l \<Rightarrow> l \<noteq> [] | None \<Rightarrow> insertion_py_fn self \<noteq> None)"
  shows "\<exists>s g'. RandomInsertion_synonym R self w g = Inr (s, g')"
  using assms
  by (auto simp: RandomInsertion_synonym_def make_seeds_def stateless_uniform_scalar_def
      getitem_def split: option.splits)

lemma insert_step_total:
  assumes "insertion_fn self \<noteq> None \<or>
           (case insertion_list self of Some l \<Rightarrow> l \<noteq> [] | None \<Rightarrow> insertion_py_fn self \<noteq> None)"
    and "2 \<le> length inputs"
  shows "\<exists>out g' b. insert_step R self inputs g = Inr (out, g', b)"
proof -
  obtain index where ix: "stateless_uniform R (seed self, g) (length inputs) (length inputs) = Inr index"
    using stateless_uniform_total [of "length inputs" "length inputs" R "(seed self, g)"] assms(2)
    by auto
  have p: "0 < length inputs" using assms(2) by (cases inputs) simp_all
  have b: "length index = length inputs" "index ! 0 < length inputs"
    using stateless_uniform_Inr [OF ix] stateless_uniform_nth [OF ix p] by simp_all
  have c: "0 < length index" "1 < length index" using b(1) assms(2) p by simp_all
  show ?thesis
  proof (cases "RandomInsertion_check_skip self (inputs ! (index ! 0))")
    case True
    then show ?thesis using ix b(2) c
      by (auto simp: insert_step_def make_seeds_def getitem_def)
  next
    case False
    obtain s g2 where "RandomInsertion_synonym R self (inputs ! (index ! 0)) (Suc g) = Inr (s, g2)"
      using synonym_total [OF assms(1)] by blast
    then show ?thesis using ix b(2) c False
      by (auto simp: insert_step_def make_seeds_def getitem_def)
  qed
qed

lemma insert_loop_total:
  assumes "insertion_fn self \<noteq> None \<or>
           (case insertion_list self of Some l \<Rightarrow> l \<noteq> [] | None \<Rightarrow> insertion_py_fn self \<noteq> None)"
  shows "2 \<le> length inputs \<or> n = 0 \<Longrightarrow>
         \<exists>out c g'. insert_loop R self n inputs g = Inr ((out, c), g')"
proof (induction n arbitrary: inputs g)
  case 0
  then show ?case by simp
next
  case (Suc n)
  then have l: "2 \<le> length inputs" by simp
  obtain mid g1 b where st: "insert_step R self inputs g = Inr (mid, g1, b)"
    using insert_step_total [OF assms l] by blast
  from insert_step_length(1) [OF st] l have "2 \<le> length mid" by simp
  then obtain out c g' where "insert_loop R self n mid g1 = Inr ((out, c), g')"
    using Suc.IH by blast
  then show ?case using st by simp
qed

lemma num_to_select_props:
  "length (fst (RandomInsertion_num_to_select B self g inputs)) = length inputs"
  "snd (RandomInsertion_num_to_select B self g inputs) = Suc g"
  "i < length inputs \<Longrightarrow>
     fst (RandomInsertion_num_to_select B self g inputs) ! i =
       (case max_insertions self of
          None \<Rightarrow> min (B (seed self, g) (map length inputs) (rate self) i) (length (inputs ! i))
        | Some m \<Rightarrow> nat (min (int (min (B (seed self, g) (map length inputs) (rate self) i)
                                      (length (inputs ! i)))) m))"
  by (auto simp: RandomInsertion_num_to_select_def make_seeds_def stateless_binomial_def Let_def
      split: option.splits)

lemma num_to_select_le:
  "i < length inputs \<Longrightarrow>
     fst (RandomInsertion_num_to_select B self g inputs) ! i \<le> length (inputs ! i)"
  by (auto simp: num_to_select_props(3) split: option.splits)

text \<open>
  What holds of the insertion layer. When \<^verbatim>\<open>call\<close> returns, every output sequence is
  as long as its input sequence plus the number of iterations of \<^verbatim>\<open>_insert\<close> that were
  not abandoned, and that number is at most \<^verbatim>\<open>num_to_select\<close>: the binomial draw for
  the sequence (itself at most the sequence's length), capped by \<^verbatim>\<open>max_insertions\<close>
  when that is set. An iteration whose prompt token is skip-protected returns the
  sequence unchanged and the generator advanced by its one draw. The call does return
  whenever the layer has a usable insertion mechanism and no sequence has exactly one
  token.
\<close>

lemma insertion_output_length:
  "(RandomInsertion_call_ragged R B self g inputs = Inr (res, g') \<longrightarrow>
      RandomInsertion_call R B self g (Rank2 inputs) = Inr (Rank2 (map fst res), g') \<and>
      length res = length inputs \<and>
      (\<forall>i < length inputs.
         length (fst (res ! i)) = length (inputs ! i) + snd (res ! i) \<and>
         snd (res ! i) \<le> fst (RandomInsertion_num_to_select B self g inputs) ! i \<and>
         fst (RandomInsertion_num_to_select B self g inputs) ! i =
           (case max_insertions self of
              None \<Rightarrow> stateless_binomial B (seed self, g) (map length inputs) (rate self) ! i
            | Some m \<Rightarrow>
                nat (min (int (stateless_binomial B (seed self, g) (map length inputs)
                                 (rate self) ! i)) m)) \<and>
         stateless_binomial B (seed self, g) (map length inputs) (rate self) ! i
           \<le> length (inputs ! i))) \<and>
   (stateless_uniform R (seed self, g) (length xs) (length xs) = Inr index \<and>
    1 < length index \<and> RandomInsertion_check_skip self (xs ! (index ! 0)) \<longrightarrow>
      insert_step R self xs g = Inr (xs, Suc g, False)) \<and>
   ((insertion_fn self \<noteq> None \<or>
     (case insertion_list self of Some l \<Rightarrow> l \<noteq> [] | None \<Rightarrow> insertion_py_fn self \<noteq> None)) \<and>
    (\<forall>xs \<in> set inputs. length xs \<noteq> 1) \<longrightarrow>
      (\<exists>res g'. RandomInsertion_call_ragged R B self g inputs = Inr (res, g')))"
proof (intro conjI impI)
  assume a: "RandomInsertion_call_ragged R B self g inputs = Inr (res, g')"
  define num where "num = fst (RandomInsertion_num_to_select B self g inputs)"
  have ns: "RandomInsertion_num_to_select B self g inputs = (num, Suc g)"
    using num_to_select_props(2) [of B self g inputs] by (simp add: num_def prod_eq_iff)
  have ln: "length num = length inputs"
    using num_to_select_props(1) [of B self g inputs] by (simp add: num_def)
  from a ns have mf: "map_fn (RandomInsertion_insert R self) (zip inputs num) (Suc g) = Inr (res, g')"
    by (simp add: RandomInsertion_call_ragged_def)
  show "RandomInsertion_call R B self g (Rank2 inputs) = Inr (Rank2 (map fst res), g')"
    using a by simp
  have all2: "list_all2 (\<lambda>x y. length (fst y) = length (fst x) + snd y \<and> snd y \<le> snd x)
      (zip inputs num) res"
  proof (rule map_fn_all2 [OF _ mf])
    fix x g1 y g2
    assume "RandomInsertion_insert R self x g1 = Inr (y, g2)"
    then have "insert_loop R self (snd x) (fst x) g1 = Inr ((fst y, snd y), g2)"
      by (simp add: RandomInsertion_insert_def split: prod.splits)
    from insert_loop_length [OF this]
    show "length (fst y) = length (fst x) + snd y \<and> snd y \<le> snd x" .
  qed
  then show lr: "length res = length inputs"
    using ln by (auto dest: list_all2_lengthD)
  show "\<forall>i < length inputs.
         length (fst (res ! i)) = length (inputs ! i) + snd (res ! i) \<and>
         snd (res ! i) \<le> fst (RandomInsertion_num_to_select B self g inputs) ! i \<and>
         fst (RandomInsertion_num_to_select B self g inputs) ! i =
           (case max_insertions self of
              None \<Rightarrow> stateless_binomial B (seed self, g) (map length inputs) (rate self) ! i
            | Some m \<Rightarrow>
                nat (min (int (stateless_binomial B (seed self, g) (map length inputs)
                                 (rate self) ! i)) m)) \<and>
         stateless_binomial B (seed self, g) (map length inputs) (rate self) ! i
           \<le> length (inputs ! i)"
  proof (intro allI impI)
    fix i assume i: "i < length inputs"
    then have "i < length (zip inputs num)" using ln by simp
    from list_all2_nthD [OF all2 this] i ln
    have 1: "length (fst (res ! i)) = length (inputs ! i) + snd (res ! i)"
      and 2: "snd (res ! i) \<le> num ! i" by simp_all
    have 3: "stateless_binomial B (seed self, g) (map length inputs) (rate self) ! i =
        min (B (seed self, g) (map length inputs) (rate self) i) (length (inputs ! i))"
      using i by (simp add: stateless_binomial_def)
    show "length (fst (res ! i)) = length (inputs ! i) + snd (res ! i) \<and>
         snd (res ! i) \<le> fst (RandomInsertion_num_to_select B self g inputs) ! i \<and>
         fst (RandomInsertion_num_to_select B self g inputs) ! i =
           (case max_insertions self of
              None \<Rightarrow> stateless_binomial B (seed self, g) (map length inputs) (rate self) ! i
            | Some m \<Rightarrow>
                nat (min (int (stateless_binomial B (seed self, g) (map length inputs)
                                 (rate self) ! i)) m)) \<and>
         stateless_binomial B (seed self, g) (map length inputs) (rate self) ! i
           \<le> length (inputs ! i)"
      using 1 2 3 num_to_select_props(3) [OF i, of B self g]
      by (simp add: num_def split: option.splits)
  qed
next
  assume "stateless_uniform R (seed self, g) (length xs) (length xs) = Inr index \<and>
    1 < length index \<and> RandomInsertion_check_skip self (xs ! (index ! 0))"
  then show "insert_step R self xs g = Inr (xs, Suc g, False)"
    using insert_step_skip by blast
next
  assume a: "(insertion_fn self \<noteq> None \<or>
     (case insertion_list self of Some l \<Rightarrow> l \<noteq> [] | None \<Rightarrow> insertion_py_fn self \<noteq> None)) \<and>
    (\<forall>xs \<in> set inputs. length xs \<noteq> 1)"
  define num where "num = fst (RandomInsertion_num_to_select B self g inputs)"
  have ns: "RandomInsertion_num_to_select B self g inputs = (num, Suc g)"
    using num_to_select_props(2) [of B self g inputs] by (simp add: num_def prod_eq_iff)
  have ln: "length num = length inputs"
    using num_to_select_props(1) [of B self g inputs] by (simp add: num_def)
  have "\<exists>ys g'. map_fn (RandomInsertion_insert R self) (zip inputs num) (Suc g) = Inr (ys, g')"
  proof (rule map_fn_total)
    fix x g1
    assume "x \<in> set (zip inputs num)"
    then obtain i where i: "i < length inputs" and x: "x = (inputs ! i, num ! i)"
      using ln by (auto simp: set_zip)
    have "num ! i \<le> length (inputs ! i)" using num_to_select_le [OF i, of B self g]
      by (simp add: num_def)
    moreover have "length (inputs ! i) \<noteq> 1" using a i by simp
    ultimately have "2 \<le> length (inputs ! i) \<or> num ! i = 0" by arith
    from insert_loop_total [OF conjunct1 [OF a] this, of R g1]
    show "\<exists>y g'. RandomInsertion_insert R self x g1 = Inr (y, g')"
      by (auto simp: RandomInsertion_insert_def x)
  qed
  then show "\<exists>res g'. RandomInsertion_call_ragged R B self g inputs = Inr (res, g')"
    using ns by (simp add: RandomInsertion_call_ragged_def)
qed

lemma insertion_output_length_example:
  "RandomInsertion_call_ragged (\<lambda>k n m i. i) (\<lambda>k c p i. 5)
     \<lparr>name = None, trainable = True, dtype = DT_STRING, seed = 42,
      skip_list = Some [''like''], skip_fn = None, rate = Finite 1, max_insertions = Some 2,
      insertion_list = Some [''wind''], insertion_fn = None, insertion_py_fn = None,
      skip_py_fn = None\<rparr> 0 [[''Hey'', ''I'', ''like'']]
     = Inr ([([''Hey'', ''I'', ''wind'', ''wind'', ''like''], 2)], 5) \<and>
   RandomInsertion_call (\<lambda>k n m i. i) (\<lambda>k c p i. 5)
     \<lparr>name = None, trainable = True, dtype = DT_STRING, seed = 42,
      skip_list = Some [''like''], skip_fn = None, rate = Finite 1, max_insertions = Some 2,
      insertion_list = Some [''wind''], insertion_fn = None, insertion_py_fn = None,
      skip_py_fn = None\<rparr> 0 (Rank2 [[''Hey'', ''I'', ''like'']])
     = Inr (Rank2 [[''Hey'', ''I'', ''wind'', ''wind'', ''like'']], 5) \<and>
   insert_step (\<lambda>k n m i. i)
     \<lparr>name = None, trainable = True, dtype = DT_STRING, seed = 42,
      skip_list = Some [''like''], skip_fn = None, rate = Finite 1, max_insertions = Some 2,
      insertion_list = Some [''wind''], insertion_fn = None, insertion_py_fn = None,
      skip_py_fn = None\<rparr> [''like'', ''I'', ''Hey''] 0
     = Inr ([''like'', ''I'', ''Hey''], 1, False)"
proof -
  let ?R = "\<lambda>(k :: key) (n :: nat) (m :: nat) (i :: nat). i"
  let ?B = "\<lambda>(k :: key) (c :: nat list) (p :: pyfloat) (i :: nat). 5 :: nat"
  let ?self = "\<lparr>name = None, trainable = True, dtype = DT_STRING, seed = 42,
      skip_list = Some [''like''], skip_fn = None, rate = Finite 1, max_insertions = Some 2,
      insertion_list = Some [''wind''], insertion_fn = None, insertion_py_fn = None,
      skip_py_fn = None\<rparr>"
  have u3: "\<And>g. stateless_uniform ?R (42, g) (Suc (Suc (Suc 0))) (Suc (Suc (Suc 0))) =
      Inr [0, 1, 2]"
    by (simp add: stateless_uniform_def upt_rec)
  have u4: "\<And>g. stateless_uniform ?R (42, g) (Suc (Suc (Suc (Suc 0))))
      (Suc (Suc (Suc (Suc 0)))) = Inr [0, 1, 2, 3]"
    by (simp add: stateless_uniform_def upt_rec)
  have s3: "\<And>g. insert_step ?R ?self [''Hey'', ''I'', ''like''] g =
      Inr ([''Hey'', ''I'', ''wind'', ''like''], Suc (Suc g), True)"
    by (simp add: insert_step_def make_seeds_def u3 getitem_def RandomInsertion_check_skip_def
        StaticHashTable_lookup_def RandomInsertion_synonym_def stateless_uniform_scalar_def)
  have s4: "\<And>g. insert_step ?R ?self [''Hey'', ''I'', ''wind'', ''like''] g =
      Inr ([''Hey'', ''I'', ''wind'', ''wind'', ''like''], Suc (Suc g), True)"
    by (simp add: insert_step_def make_seeds_def u4 getitem_def RandomInsertion_check_skip_def
        StaticHashTable_lookup_def RandomInsertion_synonym_def stateless_uniform_scalar_def)
  have n: "RandomInsertion_num_to_select ?B ?self 0 [[''Hey'', ''I'', ''like'']] =
      ([Suc (Suc 0)], 1)"
    by (simp add: RandomInsertion_num_to_select_def make_seeds_def stateless_binomial_def)
  have l: "insert_loop ?R ?self (Suc (Suc 0)) [''Hey'', ''I'', ''like''] (Suc 0) =
      Inr (([''Hey'', ''I'', ''wind'', ''wind'', ''like''], 2), 5)"
    by (simp add: s3 s4)
  have h1: "RandomInsertion_call_ragged ?R ?B ?self 0 [[''Hey'', ''I'', ''like'']]
     = Inr ([([''Hey'', ''I'', ''wind'', ''wind'', ''like''], 2)], 5)"
    by (simp add: RandomInsertion_call_ragged_def n RandomInsertion_insert_def l
        del: insert_loop.simps)
  have h2: "stateless_uniform ?R (seed ?self, 0) (length [''like'', ''I'', ''Hey''])
      (length [''like'', ''I'', ''Hey'']) = Inr [0, 1, 2]"
    using u3 [of 0] by simp
  have h3: "RandomInsertion_check_skip ?self ([''like'', ''I'', ''Hey''] ! ([0, 1, 2] ! 0))"
    by (simp add: RandomInsertion_check_skip_def StaticHashTable_lookup_def)
  show ?thesis
    using insertion_output_length [of ?R ?B ?self 0 "[[''Hey'', ''I'', ''like'']]"
        "[([''Hey'', ''I'', ''wind'', ''wind'', ''like''], 2)]" 5 "[''like'', ''I'', ''Hey'']"
        "[0, 1, 2]"] h1 h2 h3
    by simp
qed

text \<open>
  Claim C4. For every sequence the output is to be as long as the input plus the number
  of insertions made. \<^verbatim>\<open>_insert\<close> draws its two indices as the first two entries of a
  tensor of the sequence's shape: on a sequence of one token the draw has one entry and
  \<^verbatim>\<open>index[1]\<close> is out of range, so that the call fails as soon as one insertion is
  selected (here \<^verbatim>\<open>rate = 1\<close>, for which the binomial draw is the token count),
  whatever the draws are. On all other sequences the claim holds
  (\<open>insertion_output_length\<close>).
\<close>

theorem insertion_single_token_fails:
  "\<forall>R g. RandomInsertion_call R (\<lambda>k c p i. 1)
      \<lparr>name = None, trainable = True, dtype = DT_STRING, seed = 42,
       skip_list = None, skip_fn = None, rate = Finite 1, max_insertions = Some 2,
       insertion_list = Some [''wind''], insertion_fn = None, insertion_py_fn = None,
       skip_py_fn = None\<rparr> g (Rank2 [[''Hey'']])
    = Inl (InvalidArgumentError ''slice index out of bounds'')"
  by (simp add: RandomInsertion_call_ragged_def RandomInsertion_num_to_select_def
      make_seeds_def stateless_binomial_def RandomInsertion_insert_def insert_step_def
      stateless_uniform_def getitem_def)

section \<open>Determinism\<close>

text \<open>
  A run is given by what lies outside the layer: the value the constructor would draw
  for a missing seed (\<open>fresh\<close>) and what the generators compute from a key (\<open>R\<close>, \<open>B\<close>).
  The lemmas below show that \<^verbatim>\<open>call\<close> reads the generators only at keys of the layer's
  own seed, with counters from the current state on, and that every draw advances the
  counter.
\<close>

lemma stateless_uniform_agree:
  "(\<And>n m i. R1 k n m i = R2 k n m i) \<Longrightarrow>
     stateless_uniform R1 k n m = stateless_uniform R2 k n m"
  by (simp add: stateless_uniform_def)

lemma swap_loop_agree:
  assumes "\<And>c n m i. g \<le> c \<Longrightarrow> R1 (sd, c) n m i = R2 (sd, c) n m i"
  shows "swap_loop R1 sd k ps g = swap_loop R2 sd k ps g"
  using assms
proof (induction k arbitrary: ps g)
  case 0
  then show ?case by simp
next
  case (Suc k)
  have u: "random_uniform R1 sd g (length ps) (length ps) =
           random_uniform R2 sd g (length ps) (length ps)"
    using stateless_uniform_agree [of R1 "(sd, g)" R2] Suc.prems [of g]
    by (simp add: random_uniform_def)
  have r: "\<And>ps'. swap_loop R1 sd k ps' (Suc g) = swap_loop R2 sd k ps' (Suc g)"
    using Suc.IH [of "Suc g"] Suc.prems by simp
  show ?case
  proof (cases "random_uniform R1 sd g (length ps) (length ps)")
    case (Inl e)
    then show ?thesis using u by simp
  next
    case (Inr v)
    obtain index g1 where v: "v = (index, g1)" by (cases v)
    have "g1 = Suc g" using Inr v by (auto simp: random_uniform_def split: sum.splits)
    then show ?thesis using Inr v u r by (simp split: sum.splits)
  qed
qed

lemma swap_loop_mono: "swap_loop R sd k ps g = Inr (qs, g') \<Longrightarrow> g \<le> g'"
proof (induction k arbitrary: ps g)
  case 0
  then show ?case by simp
next
  case (Suc k)
  from Suc.prems obtain ps' where "swap_loop R sd k ps' (Suc g) = Inr (qs, g')"
    by (auto simp: random_uniform_def split: sum.splits prod.splits)
  from Suc.IH [OF this] show ?case by simp
qed

lemma map_fn_agree:
  assumes "\<And>x g1. g \<le> g1 \<Longrightarrow> f1 x g1 = f2 x g1"
    and "\<And>x g1 y g2. f1 x g1 = Inr (y, g2) \<Longrightarrow> g1 \<le> g2"
  shows "map_fn f1 xs g = map_fn f2 xs g"
  using assms(1)
proof (induction xs arbitrary: g)
  case Nil
  then show ?case by simp
next
  case (Cons x xs)
  have h: "f1 x g = f2 x g" using Cons.prems by simp
  show ?case
  proof (cases "f1 x g")
    case (Inl e)
    then show ?thesis using h by simp
  next
    case (Inr r)
    obtain y g1 where r: "r = (y, g1)" by (cases r)
    have "g \<le> g1" using assms(2) Inr r by blast
    then have "map_fn f1 xs g1 = map_fn f2 xs g1"
      using Cons.IH [of g1] Cons.prems by simp
    then show ?thesis using Inr r h by simp
  qed
qed

lemma swaps_call_agree:
  assumes "\<And>c n m i. g \<le> c \<Longrightarrow> R1 (seed self, c) n m i = R2 (seed self, c) n m i"
  shows "RandomSwaps_call R1 self g x = RandomSwaps_call R2 self g x"
proof -
  have a: "\<And>ps g1. g \<le> g1 \<Longrightarrow> RandomSwaps_swap R1 self ps g1 = RandomSwaps_swap R2 self ps g1"
    using swap_loop_agree [of _ R1 "seed self" R2] assms
    by (simp add: RandomSwaps_swap_def)
  have m: "\<And>ps g1 qs g2. RandomSwaps_swap R1 self ps g1 = Inr (qs, g2) \<Longrightarrow> g1 \<le> g2"
    by (auto simp: RandomSwaps_swap_def split: if_splits dest: swap_loop_mono)
  have "\<And>pss. map_fn (RandomSwaps_swap R1 self) pss g = map_fn (RandomSwaps_swap R2 self) pss g"
    by (rule map_fn_agree [OF a m])
  then have "\<And>b xss. RandomSwaps_call_ragged R1 self g b xss =
                     RandomSwaps_call_ragged R2 self g b xss"
    by (simp add: RandomSwaps_call_ragged_def)
  then show ?thesis by (cases x) simp_all
qed

lemma synonym_agree:
  assumes "\<And>n m i. R1 (seed self, g) n m i = R2 (seed self, g) n m i"
  shows "RandomInsertion_synonym R1 self w g = RandomInsertion_synonym R2 self w g"
  using assms
  by (simp add: RandomInsertion_synonym_def make_seeds_def stateless_uniform_scalar_def
      split: option.splits)

lemma synonym_mono:
  "RandomInsertion_synonym R self w g = Inr (s, g') \<Longrightarrow> g \<le> g'"
  by (auto simp: RandomInsertion_synonym_def make_seeds_def split: option.splits sum.splits)

lemma insert_step_agree:
  assumes "\<And>c n m i. g \<le> c \<Longrightarrow> R1 (seed self, c) n m i = R2 (seed self, c) n m i"
  shows "insert_step R1 self xs g = insert_step R2 self xs g"
proof -
  have u: "stateless_uniform R1 (seed self, g) (length xs) (length xs) =
           stateless_uniform R2 (seed self, g) (length xs) (length xs)"
    using stateless_uniform_agree [of R1 "(seed self, g)" R2] assms [of g] by simp
  have s: "\<And>w. RandomInsertion_synonym R1 self w (Suc g) = RandomInsertion_synonym R2 self w (Suc g)"
    using synonym_agree [of R1 self "Suc g" R2] assms [of "Suc g"] by simp
  show ?thesis
    by (simp add: insert_step_def make_seeds_def u s split: sum.splits)
qed

lemma insert_step_mono:
  "insert_step R self xs g = Inr (ys, g', b) \<Longrightarrow> g \<le> g'"
  by (auto simp: insert_step_def make_seeds_def split: sum.splits if_splits prod.splits
      dest!: synonym_mono)

lemma insert_loop_agree:
  assumes "\<And>c n m i. g \<le> c \<Longrightarrow> R1 (seed self, c) n m i = R2 (seed self, c) n m i"
  shows "insert_loop R1 self k xs g = insert_loop R2 self k xs g"
  using assms
proof (induction k arbitrary: xs g)
  case 0
  then show ?case by simp
next
  case (Suc k)
  have h: "insert_step R1 self xs g = insert_step R2 self xs g"
    using insert_step_agree [of g R1 self R2] Suc.prems by simp
  show ?case
  proof (cases "insert_step R1 self xs g")
    case (Inl e)
    then show ?thesis using h by simp
  next
    case (Inr r)
    obtain ys g1 b where r: "r = (ys, g1, b)" by (cases r)
    have "g \<le> g1" using insert_step_mono Inr r by blast
    then have "insert_loop R1 self k ys g1 = insert_loop R2 self k ys g1"
      using Suc.IH [of g1] Suc.prems by simp
    then show ?thesis using Inr r h by simp
  qed
qed

lemma insert_loop_mono:
  "insert_loop R self k xs g = Inr (r, g') \<Longrightarrow> g \<le> g'"
proof (induction k arbitrary: xs g r)
  case 0
  then show ?case by simp
next
  case (Suc k)
  from Suc.prems obtain ys g1 b r1 where "insert_step R self xs g = Inr (ys, g1, b)"
    and "insert_loop R self k ys g1 = Inr (r1, g')"
    by (auto split: sum.splits prod.splits)
  then show ?case using insert_step_mono Suc.IH by (metis le_trans)
qed

lemma insertion_call_agree:
  assumes R: "\<And>c n m i. g \<le> c \<Longrightarrow> R1 (seed self, c) n m i = R2 (seed self, c) n m i"
    and B: "\<And>cs p i. B1 (seed self, g) cs p i = B2 (seed self, g) cs p i"
  shows "RandomInsertion_call R1 B1 (self :: 'a RandomInsertion) g x =
         RandomInsertion_call R2 B2 self g x"
proof -
  have n: "\<And>xss. RandomInsertion_num_to_select B1 self g xss =
                 RandomInsertion_num_to_select B2 self g xss"
    by (simp add: RandomInsertion_num_to_select_def make_seeds_def stateless_binomial_def B)
  have s: "\<And>xss. snd (RandomInsertion_num_to_select B2 self g xss) = Suc g"
    by (simp add: RandomInsertion_num_to_select_def make_seeds_def Let_def split: option.splits)
  have a: "\<And>x g1. Suc g \<le> g1 \<Longrightarrow>
      RandomInsertion_insert R1 self x g1 = RandomInsertion_insert R2 self x g1"
    using insert_loop_agree [of _ R1 self R2] R
    by (simp add: RandomInsertion_insert_def split: prod.splits)
  have m: "\<And>x g1 y g2. RandomInsertion_insert R1 self x g1 = Inr (y, g2) \<Longrightarrow> g1 \<le> g2"
    by (auto simp: RandomInsertion_insert_def split: prod.splits dest: insert_loop_mono)
  have mf: "\<And>zs. map_fn (RandomInsertion_insert R1 self) zs (Suc g) =
              map_fn (RandomInsertion_insert R2 self) zs (Suc g)"
    by (rule map_fn_agree [OF a m])
  have "\<And>xss. RandomInsertion_call_ragged R1 B1 self g xss =
                RandomInsertion_call_ragged R2 B2 self g xss"
  proof -
    fix xss :: "'a list list"
    obtain num where nn: "RandomInsertion_num_to_select B2 self g xss = (num, Suc g)"
      using s [of xss] by (cases "RandomInsertion_num_to_select B2 self g xss") auto
    show "RandomInsertion_call_ragged R1 B1 self g xss =
          RandomInsertion_call_ragged R2 B2 self g xss"
      by (simp add: RandomInsertion_call_ragged_def n nn mf)
  qed
  then show ?thesis by (cases x) simp_all
qed

lemma RandomSwaps_init_seed:
  "RandomSwaps_init fresh sw sl sf pf (Some s) nm kw = Inr self \<Longrightarrow>
     seed self = s \<and> RandomSwaps_init fresh' sw sl sf pf (Some s) nm kw = Inr self"
  by (auto simp: RandomSwaps_init_def split: sum.splits if_splits)

lemma RandomInsertion_init_seed:
  "RandomInsertion_init fresh r mi il ifn ipf sl sf spf (Some s) nm kw = Inr self \<Longrightarrow>
     seed self = s \<and> RandomInsertion_init fresh' r mi il ifn ipf sl sf spf (Some s) nm kw = Inr self"
  by (auto simp: RandomInsertion_init_def split: sum.splits if_splits)

text \<open>
  Claim C9. Two runs with the same seed, the same state of the randomness source and
  the same input give the same output and the same state after the call: the layers
  built with an explicit seed are equal whatever the constructor's own seed source is,
  and the two calls agree as soon as the generators of the two runs agree on the stream
  of that seed from the current counter on, whatever they do at any other key.
\<close>

theorem determinism:
  "(RandomSwaps_init fresh1 sw sl sf pf (Some s) nm kw = Inr self1 \<and>
    RandomSwaps_init fresh2 sw sl sf pf (Some s) nm kw = Inr self2 \<and>
    (\<forall>c n m i. g \<le> c \<longrightarrow> R1 (s, c) n m i = R2 (s, c) n m i) \<longrightarrow>
      RandomSwaps_call R1 self1 g x = RandomSwaps_call R2 self2 g x) \<and>
   (RandomInsertion_init fresh1 r mi il ifn ipf sl' sf' spf (Some s') nm' kw' = Inr self3 \<and>
    RandomInsertion_init fresh2 r mi il ifn ipf sl' sf' spf (Some s') nm' kw' = Inr self4 \<and>
    (\<forall>c n m i. g' \<le> c \<longrightarrow> R1' (s', c) n m i = R2' (s', c) n m i) \<and>
    (\<forall>c cs p i. g' \<le> c \<longrightarrow> B1 (s', c) cs p i = B2 (s', c) cs p i) \<longrightarrow>
      RandomInsertion_call R1' B1 self3 g' y = RandomInsertion_call R2' B2 self4 g' y)"
proof (intro conjI impI)
  assume a: "RandomSwaps_init fresh1 sw sl sf pf (Some s) nm kw = Inr self1 \<and>
    RandomSwaps_init fresh2 sw sl sf pf (Some s) nm kw = Inr self2 \<and>
    (\<forall>c n m i. g \<le> c \<longrightarrow> R1 (s, c) n m i = R2 (s, c) n m i)"
  then have sd: "seed self1 = s" and eq: "self2 = self1"
    using RandomSwaps_init_seed [of fresh1 sw sl sf pf s nm kw self1 fresh2] by auto
  show "RandomSwaps_call R1 self1 g x = RandomSwaps_call R2 self2 g x"
    unfolding eq by (rule swaps_call_agree) (use a sd in simp)
next
  assume a: "RandomInsertion_init fresh1 r mi il ifn ipf sl' sf' spf (Some s') nm' kw' = Inr self3 \<and>
    RandomInsertion_init fresh2 r mi il ifn ipf sl' sf' spf (Some s') nm' kw' = Inr self4 \<and>
    (\<forall>c n m i. g' \<le> c \<longrightarrow> R1' (s', c) n m i = R2' (s', c) n m i) \<and>
    (\<forall>c cs p i. g' \<le> c \<longrightarrow> B1 (s', c) cs p i = B2 (s', c) cs p i)"
  then have sd: "seed self3 = s'" and eq: "self4 = self3"
    using RandomInsertion_init_seed [of fresh1 r mi il ifn ipf sl' sf' spf s' nm' kw' self3 fresh2]
    by auto
  show "RandomInsertion_call R1' B1 self3 g' y = RandomInsertion_call R2' B2 self4 g' y"
    unfolding eq by (rule insertion_call_agree) (use a sd in simp_all)
qed

theorem determinism_witness:
  "RandomSwaps_call (\<lambda>k n m i. if fst k = 42 then i else 0)
      \<lparr>name = None, trainable = True, dtype = DT_INT32, seed = 42, skip_list = None,
       skip_fn = None, swaps = 3, py_skip_fn = None\<rparr> 0 (Rank2 [[''Hey'', ''I'', ''like'']]) =
     Inr (Rank2 [[''I'', ''Hey'', ''like'']], 3) \<and>
   RandomInsertion_call (\<lambda>k n m i. if fst k = 42 then i else 0)
      (\<lambda>k cs p i. if fst k = 42 then 5 else 0)
      \<lparr>name = None, trainable = True, dtype = DT_INT32, seed = 42,
       skip_list = Some [''like''], skip_fn = None, rate = Finite 1, max_insertions = Some 2,
       insertion_list = Some [''wind''], insertion_fn = None, insertion_py_fn = None,
       skip_py_fn = None\<rparr> 0 (Rank2 [[''Hey'', ''I'', ''like'']]) =
     Inr (Rank2 [[''Hey'', ''I'', ''wind'', ''wind'', ''like'']], 5)"
proof -
  let ?R1 = "\<lambda>(k :: key) (n :: nat) (m :: nat) (i :: nat). i"
  let ?R2 = "\<lambda>(k :: key) (n :: nat) (m :: nat) (i :: nat). if fst k = 42 then i else 0"
  let ?B1 = "\<lambda>(k :: key) (cs :: nat list) (p :: pyfloat) (i :: nat). 5 :: nat"
  let ?B2 = "\<lambda>(k :: key) (cs :: nat list) (p :: pyfloat) (i :: nat).
               if fst k = 42 then 5 else 0 :: nat"
  let ?kw = "\<lparr>kw_dtype = None, kw_trainable = None\<rparr>"
  let ?sw = "\<lparr>name = None, trainable = True, dtype = DT_INT32, seed = 42,
       skip_list = (None :: string list option),
       skip_fn = None, swaps = 3, py_skip_fn = None\<rparr>"
  let ?ins = "\<lparr>name = None, trainable = True, dtype = DT_INT32, seed = 42,
       skip_list = Some [''like''], skip_fn = None, rate = Finite 1, max_insertions = Some 2,
       insertion_list = Some [''wind''], insertion_fn = None, insertion_py_fn = None,
       skip_py_fn = None\<rparr>"
  have i1: "RandomSwaps_init 1 3 None None None (Some 42) None ?kw = Inr ?sw"
    and i2: "RandomSwaps_init 2 3 None None None (Some 42) None ?kw = Inr ?sw"
    by (simp_all add: RandomSwaps_init_def)
  have j1: "RandomInsertion_init 1 (Finite 1) (Some 2) (Some [''wind'']) None None
      (Some [''like'']) None None (Some 42) None ?kw = Inr ?ins"
    and j2: "RandomInsertion_init 2 (Finite 1) (Some 2) (Some [''wind'']) None None
      (Some [''like'']) None None (Some 42) None ?kw = Inr ?ins"
    by (simp_all add: RandomInsertion_init_def)
  have e1: "RandomSwaps_call ?R1 ?sw 0 (Rank2 [[''Hey'', ''I'', ''like'']]) =
     Inr (Rank2 [[''I'', ''Hey'', ''like'']], 3)"
    by code_simp
  have e2: "RandomInsertion_call ?R1 ?B1 ?ins 0 (Rank2 [[''Hey'', ''I'', ''like'']]) =
     Inr (Rank2 [[''Hey'', ''I'', ''wind'', ''wind'', ''like'']], 5)"
    by code_simp
  have d: "RandomSwaps_call ?R1 ?sw 0 (Rank2 [[''Hey'', ''I'', ''like'']]) =
           RandomSwaps_call ?R2 ?sw 0 (Rank2 [[''Hey'', ''I'', ''like'']]) \<and>
           RandomInsertion_call ?R1 ?B1 ?ins 0 (Rank2 [[''Hey'', ''I'', ''like'']]) =
           RandomInsertion_call ?R2 ?B2 ?ins 0 (Rank2 [[''Hey'', ''I'', ''like'']])"
    using determinism [where ?fresh1.0 = 1 and ?fresh2.0 = 2 and sw = 3
      and sl = "None :: string list option" and sf = None and pf = None and s = 42
      and nm = None and kw = ?kw and ?self1.0 = ?sw and ?self2.0 = ?sw and g = 0
      and ?R1.0 = ?R1 and ?R2.0 = ?R2 and x = "Rank2 [[''Hey'', ''I'', ''like'']]"
      and r = "Finite 1" and mi = "Some 2" and il = "Some [''wind'']" and ifn = None
      and ipf = None and sl' = "Some [''like'']" and sf' = None and spf = None and s' = 42
      and nm' = None and kw' = ?kw and ?self3.0 = ?ins and ?self4.0 = ?ins and g' = 0
      and R1' = ?R1 and R2' = ?R2 and ?B1.0 = ?B1 and ?B2.0 = ?B2
      and y = "Rank2 [[''Hey'', ''I'', ''like'']]"] i1 i2 j1 j2
    by simp
  show ?thesis using d e1 e2 by simp
qed

section \<open>The swap transform\<close>

lemma getitem_map: "getitem (map f t) i = (case getitem t i of Inl e \<Rightarrow> Inl e | Inr x \<Rightarrow> Inr (f x))"
  by (simp add: getitem_def)

lemma swap_loop_mset:
  "swap_loop R sd k ps g = Inr (qs, g') \<Longrightarrow> mset qs = mset ps"
proof (induction k arbitrary: ps g)
  case 0
  then show ?case by simp
next
  case (Suc k)
  from Suc.prems obtain index g1 i1 i2 p2 p1 ps' where
    i1: "getitem index 0 = Inr i1" and i2: "getitem index 1 = Inr i2"
    and p2: "getitem ps i2 = Inr p2" and p1: "getitem ps i1 = Inr p1"
    and sc: "tensor_scatter_nd_update ps i1 i2 p2 p1 = Inr ps'"
    and rest: "swap_loop R sd k ps' g1 = Inr (qs, g')"
    by (auto split: sum.splits prod.splits)
  from p1 p2 sc have "ps' = ps[i1 := ps ! i2, i2 := ps ! i1]" "i1 < length ps" "i2 < length ps"
    by (auto simp: getitem_Inr tensor_scatter_nd_update_def split: if_splits)
  then have "mset ps' = mset ps" by (simp add: mset_swap)
  with Suc.IH [OF rest] show ?case by simp
qed

lemma swap_loop_map:
  "swap_loop R sd k (map f ps) g =
     (case swap_loop R sd k ps g of Inl e \<Rightarrow> Inl e | Inr (qs, g') \<Rightarrow> Inr (map f qs, g'))"
proof (induction k arbitrary: ps g)
  case 0
  then show ?case by simp
next
  case (Suc k)
  have upd: "\<And>i j. i < length ps \<Longrightarrow> j < length ps \<Longrightarrow>
      (map f ps)[i := f (ps ! j), j := f (ps ! i)] = map f (ps[i := ps ! j, j := ps ! i])"
    by (simp add: map_update)
  show ?case
    by (auto simp: getitem_def tensor_scatter_nd_update_def upd Suc.IH
        split: sum.splits prod.splits)
qed

lemma swap_mset:
  "RandomSwaps_swap R self ps g = Inr (qs, g') \<Longrightarrow> mset qs = mset ps"
  by (auto simp: RandomSwaps_swap_def swap_loop_mset split: if_splits)

lemma swap_map:
  "RandomSwaps_swap R self (map f ps) g =
     (case RandomSwaps_swap R self ps g of Inl e \<Rightarrow> Inl e | Inr (qs, g') \<Rightarrow> Inr (map f qs, g'))"
  by (simp add: RandomSwaps_swap_def swap_loop_map)

lemma unflatten_concat: "unflatten (map length xss) (concat xss @ rest) = xss"
  by (induction xss) simp_all

lemma unflatten_concat': "unflatten (map length xss) (concat xss) = xss"
  using unflatten_concat [of xss "[]"] by simp

lemma unflatten_map: "unflatten ns (map f vs) = map (map f) (unflatten ns vs)"
  by (induction ns arbitrary: vs) (simp_all add: take_map drop_map)

lemma unflatten_zip:
  "boolean_mask (unflatten ns vs) (unflatten ns bs) =
     map (\<lambda>r. map fst (filter snd r)) (unflatten ns (zip vs bs))"
  by (induction ns arbitrary: vs bs) (simp_all add: boolean_mask_def take_zip drop_zip)

lemma concat_unflatten:
  "sum_list ns = length vs \<Longrightarrow> concat (unflatten ns vs) = vs"
proof (induction ns arbitrary: vs)
  case Nil
  then show ?case by simp
next
  case (Cons n ns)
  then have "sum_list ns = length (drop n vs)" by simp
  from Cons.IH [OF this] show ?case by simp
qed

lemma length_unflatten: "length (unflatten ns vs) = length ns"
  by (induction ns arbitrary: vs) simp_all

lemma sum_list_lengths: "sum_list (map length xss) = length (concat xss)"
  by (induction xss) simp_all

lemma skip_masks_cases:
  "(\<forall>flat. RandomSwaps_skip_masks self flat = None) \<or>
   (\<exists>f. \<forall>flat. RandomSwaps_skip_masks self flat = Some (map f flat))"
  by (cases "truthy_list (skip_list self)"; cases "skip_fn self"; cases "py_skip_fn self")
     (auto simp: RandomSwaps_skip_masks_def)

lemma zip_upt_map:
  "zip [0..<length vs] (map f vs) = map (\<lambda>i. (i, f (vs ! i))) [0..<length vs]"
  by (rule nth_equalityI) simp_all

lemma positions_filter:
  "RandomSwaps_positions (self :: 'a RandomSwaps) xss =
      map (filter (\<lambda>i. RandomSwaps_skip_masks self [concat xss ! i] \<noteq> Some [True]))
        (unflatten (map length xss) [0..<length (concat xss)])"
proof -
  let ?ns = "map length xss" and ?N = "length (concat xss)"
  from skip_masks_cases [of self] show ?thesis
  proof
    assume n: "\<forall>flat. RandomSwaps_skip_masks self flat = None"
    have fid: "filter (\<lambda>i :: nat. True) = id" by (rule ext) simp
    show ?thesis
      by (simp add: RandomSwaps_positions_def n flat_values_def with_flat_values_def fid)
  next
    assume "\<exists>f. \<forall>flat. RandomSwaps_skip_masks self flat = Some (map f flat)"
    then obtain f where f: "\<forall>flat. RandomSwaps_skip_masks self flat = Some (map f flat)" ..
    have "RandomSwaps_positions self xss =
        boolean_mask (unflatten ?ns [0..<?N])
          (unflatten ?ns (map (\<lambda>t. \<not> f t) (concat xss)))"
      by (simp add: RandomSwaps_positions_def f flat_values_def with_flat_values_def comp_def)
    also have "\<dots> = map (\<lambda>r. map fst (filter snd r))
        (unflatten ?ns (zip [0..<?N] (map (\<lambda>t. \<not> f t) (concat xss))))"
      by (rule unflatten_zip)
    also have "\<dots> = map (\<lambda>r. map fst (filter snd r))
        (unflatten ?ns (map (\<lambda>i. (i, \<not> f (concat xss ! i))) [0..<?N]))"
      by (simp only: zip_upt_map)
    also have "\<dots> = map (\<lambda>r. map fst (filter snd r))
        (map (map (\<lambda>i. (i, \<not> f (concat xss ! i)))) (unflatten ?ns [0..<?N]))"
      by (simp only: unflatten_map)
    also have "\<dots> = map (filter (\<lambda>i. \<not> f (concat xss ! i))) (unflatten ?ns [0..<?N])"
      by (simp add: filter_map comp_def)
    finally show ?thesis by (simp add: f)
  qed
qed

lemma unflatten_upt_Cons:
  "unflatten (map length (xs # xss)) [off..<off + length (concat (xs # xss))] =
     [off..<off + length xs] #
     unflatten (map length xss) [off + length xs..<off + length xs + length (concat xss)]"
  by (simp add: add.assoc)

lemma upt_shift: "[off..<off + n] = map ((+) off) [0..<n]"
  by (rule nth_equalityI) simp_all

lemma swap_row_shift:
  assumes "RandomSwaps_swap R self [0..<length xs] g = Inr (qs, g1)"
  shows "map (nth (pre @ xs @ post)) (map ((+) (length pre)) qs) = map (nth xs) qs"
proof -
  have "set qs = {0..<length xs}"
    using swap_mset [OF assms] by (metis mset_eq_setD set_upt)
  then show ?thesis by (auto simp: nth_append)
qed

lemma map_fn_swap_rows:
  "(case map_fn (RandomSwaps_swap R self)
           (unflatten (map length xss) [length pre..<length pre + length (concat xss)]) g of
      Inl e \<Rightarrow> Inl e
    | Inr (pss, g') \<Rightarrow> Inr (map (map (nth (pre @ concat xss @ post))) pss, g')) =
   map_fn (\<lambda>xs g. case RandomSwaps_swap R self [0..<length xs] g of
                     Inl e \<Rightarrow> Inl e
                   | Inr (ps, g') \<Rightarrow> Inr (map (nth xs) ps, g')) xss g"
proof (induction xss arbitrary: pre g)
  case Nil
  then show ?case by simp
next
  case (Cons xs xss)
  let ?off = "length pre"
  let ?F = "pre @ concat (xs # xss) @ post"
  have u: "unflatten (map length (xs # xss)) [?off..<?off + length (concat (xs # xss))] =
     map ((+) ?off) [0..<length xs] #
     unflatten (map length xss) [length (pre @ xs)..<length (pre @ xs) + length (concat xss)]"
    using unflatten_upt_Cons [of xs xss ?off] upt_shift [of ?off "length xs"] by simp
  have F: "?F = (pre @ xs) @ concat xss @ post" by simp
  show ?case
  proof (cases "RandomSwaps_swap R self [0..<length xs] g")
    case (Inl e)
    then show ?thesis unfolding u by (simp add: swap_map)
  next
    case (Inr r)
    obtain qs g1 where r: "r = (qs, g1)" by (cases r)
    have sh: "map (nth ?F) (map ((+) ?off) qs) = map (nth xs) qs"
      using swap_row_shift [of R self xs g qs g1 pre "concat xss @ post"] Inr r by simp
    have IH: "(case map_fn (RandomSwaps_swap R self)
           (unflatten (map length xss)
              [length (pre @ xs)..<length (pre @ xs) + length (concat xss)]) g1 of
        Inl e \<Rightarrow> Inl e
      | Inr (pss, g') \<Rightarrow> Inr (map (map (nth ?F)) pss, g')) =
      map_fn (\<lambda>xs g. case RandomSwaps_swap R self [0..<length xs] g of
                     Inl e \<Rightarrow> Inl e
                   | Inr (ps, g') \<Rightarrow> Inr (map (nth xs) ps, g')) xss g1"
      using Cons.IH [of "pre @ xs" g1] unfolding F .
    show ?thesis
      unfolding u
      using Inr r sh IH [symmetric]
      by (simp add: swap_map split: sum.splits prod.splits)
  qed
qed

lemma row_splits_from_ge: "x \<in> set (row_splits_from s xss) \<Longrightarrow> s \<le> x"
proof (induction xss arbitrary: s)
  case Nil then show ?case by simp
next
  case (Cons a xss) then show ?case by fastforce
qed

lemma row_splits_from_hd: "hd (row_splits_from s xss) = s"
  by (cases xss) simp_all

lemma row_splits_from_props:
  "row_splits_from s xss \<noteq> []" "hd (row_splits_from s xss) = s"
  "sorted (row_splits_from s xss)" "last (row_splits_from s xss) = s + length (concat xss)"
  "split_lengths (row_splits_from s xss) = map length xss"
proof -
  show "row_splits_from s xss \<noteq> []" by (cases xss) simp_all
  show "hd (row_splits_from s xss) = s" by (rule row_splits_from_hd)
  show "sorted (row_splits_from s xss)"
    by (induction xss arbitrary: s) (auto dest: row_splits_from_ge)
  show "last (row_splits_from s xss) = s + length (concat xss)"
  proof (induction xss arbitrary: s)
    case Nil then show ?case by simp
  next
    case (Cons a xss)
    have "row_splits_from (s + length a) xss \<noteq> []" by (cases xss) simp_all
    then show ?case using Cons.IH [of "s + length a"] by simp
  qed
  show "split_lengths (row_splits_from s xss) = map length xss"
  proof (induction xss arbitrary: s)
    case Nil then show ?case by simp
  next
    case (Cons a xss)
    obtain b bs where b: "row_splits_from (s + length a) xss = b # bs"
      by (cases xss) simp_all
    have "b = s + length a" using row_splits_from_hd [of "s + length a" xss] b by simp
    then show ?case using Cons.IH [of "s + length a"] b by simp
  qed
qed

lemma from_row_splits_rows:
  "from_row_splits vals (row_splits xss) =
     (if length vals = length (concat xss) then Inr (unflatten (map length xss) vals)
      else Inl (InvalidArgumentError
                  ''Arguments to from_row_splits do not form a valid RaggedTensor''))"
  using row_splits_from_props [of 0 xss]
  by (auto simp: from_row_splits_def row_splits_def)

lemma all2_mset_concat:
  "list_all2 (\<lambda>p q. mset q = mset p) ps qs \<Longrightarrow> mset (concat qs) = mset (concat ps)"
  by (induction rule: list_all2_induct) simp_all

lemma map_fn_swap_mset:
  assumes "map_fn (RandomSwaps_swap R self) ps g = Inr (qs, g')"
  shows "mset (concat qs) = mset (concat ps)"
proof -
  have "list_all2 (\<lambda>p q. mset q = mset p) ps qs"
    by (rule map_fn_all2 [OF _ assms]) (rule swap_mset)
  then show ?thesis by (rule all2_mset_concat)
qed

lemma concat_positions:
  "concat (RandomSwaps_positions self xss) =
     filter (\<lambda>i. RandomSwaps_skip_masks self [concat xss ! i] \<noteq> Some [True])
       [0..<length (concat xss)]"
proof -
  have "concat (unflatten (map length xss) [0..<length (concat xss)]) = [0..<length (concat xss)]"
    by (rule concat_unflatten) (simp add: sum_list_lengths)
  then show ?thesis
    by (simp add: positions_filter filter_concat [symmetric])
qed

lemma positions_no_skip:
  assumes "\<forall>t \<in> set (concat xss). RandomSwaps_skip_masks self [t] \<noteq> Some [True]"
  shows "RandomSwaps_positions self xss =
     unflatten (map length xss) [0..<length (concat xss)]"
proof -
  let ?rows = "unflatten (map length xss) [0..<length (concat xss)]"
  have c: "concat ?rows = [0..<length (concat xss)]"
    by (rule concat_unflatten) (simp add: sum_list_lengths)
  have "map (filter (\<lambda>i. RandomSwaps_skip_masks self [concat xss ! i] \<noteq> Some [True])) ?rows
      = map (\<lambda>r. r) ?rows"
  proof (rule map_cong [OF refl])
    fix r assume r: "r \<in> set ?rows"
    have "\<forall>i \<in> set r. i < length (concat xss)"
    proof
      fix i assume "i \<in> set r"
      then have "i \<in> set (concat ?rows)" using r by auto
      then show "i < length (concat xss)" unfolding c by simp
    qed
    then have "\<forall>i \<in> set r. RandomSwaps_skip_masks self [concat xss ! i] \<noteq> Some [True]"
      using assms nth_mem by blast
    then show "filter (\<lambda>i. RandomSwaps_skip_masks self [concat xss ! i] \<noteq> Some [True]) r = r"
      by (rule filter_True)
  qed
  then show ?thesis by (simp add: positions_filter)
qed

lemma positions_skip_shorter:
  assumes "t \<in> set (concat xss)" and "RandomSwaps_skip_masks self [t] = Some [True]"
  shows "length (concat (RandomSwaps_positions self xss)) < length (concat xss)"
proof -
  from assms(1) obtain i where i: "i < length (concat xss)" "concat xss ! i = t"
    by (metis in_set_conv_nth)
  have "length (filter (\<lambda>i. RandomSwaps_skip_masks self [concat xss ! i] \<noteq> Some [True])
      [0..<length (concat xss)]) < length [0..<length (concat xss)]"
    by (rule length_filter_less [of i]) (use i assms(2) in simp_all)
  then show ?thesis by (simp add: concat_positions)
qed

lemma swaps_call_fails_on_skip:
  assumes "t \<in> set (concat xss)" and "RandomSwaps_skip_masks self [t] = Some [True]"
  shows "isl (RandomSwaps_call_ragged R self g b xss)"
proof (cases "map_fn (RandomSwaps_swap R self) (RandomSwaps_positions self xss) g")
  case (Inl e)
  then show ?thesis by (simp add: RandomSwaps_call_ragged_def)
next
  case (Inr r)
  obtain shuffled g' where r: "r = (shuffled, g')" by (cases r)
  have "length (concat shuffled) = length (concat (RandomSwaps_positions self xss))"
    using map_fn_swap_mset [of R self _ g shuffled g'] Inr r by (metis size_mset)
  then have l: "length (concat shuffled) \<noteq> length (concat xss)"
    using positions_skip_shorter [OF assms] by simp
  show ?thesis
    using Inr r l
    by (auto simp: RandomSwaps_call_ragged_def flat_values_def gather_def from_row_splits_rows
        split: sum.splits)
qed

lemma map_length_unflatten:
  "sum_list ns \<le> length vs \<Longrightarrow> map length (unflatten ns vs) = ns"
  by (induction ns arbitrary: vs) simp_all

lemma all2_mset_lengths:
  "list_all2 (\<lambda>p q. mset q = mset p) ps qs \<Longrightarrow> map length qs = map length ps"
  by (induction rule: list_all2_induct) (simp_all, metis size_mset)

lemma map_fn_Inr_each:
  "map_fn f xs g = Inr (ys, g') \<Longrightarrow> x \<in> set xs \<Longrightarrow> \<exists>g1 y g2. f x g1 = Inr (y, g2)"
proof (induction xs arbitrary: g ys)
  case Nil
  then show ?case by simp
next
  case (Cons a xs)
  from Cons.prems(1) obtain y g1 ys1 where
    fa: "f a g = Inr (y, g1)" and r: "map_fn f xs g1 = Inr (ys1, g')"
    by (auto split: sum.splits prod.splits)
  show ?case
  proof (cases "x = a")
    case True
    then show ?thesis using fa by blast
  next
    case False
    then have "x \<in> set xs" using Cons.prems(2) by simp
    from Cons.IH [OF r this] show ?thesis .
  qed
qed

lemma map_fn_post:
  assumes "\<And>x g. x \<in> set xs \<Longrightarrow>
      f' x g = (case f x g of Inl e \<Rightarrow> Inl e | Inr (y, g') \<Rightarrow> Inr (h y, g'))"
  shows "map_fn f' xs g =
      (case map_fn f xs g of Inl e \<Rightarrow> Inl e | Inr (ys, g') \<Rightarrow> Inr (map h ys, g'))"
  using assms
proof (induction xs arbitrary: g)
  case Nil
  then show ?case by simp
next
  case (Cons a xs)
  have a: "f' a g = (case f a g of Inl e \<Rightarrow> Inl e | Inr (y, g') \<Rightarrow> Inr (h y, g'))"
    using Cons.prems by simp
  have r: "\<And>g. map_fn f' xs g =
      (case map_fn f xs g of Inl e \<Rightarrow> Inl e | Inr (ys, g') \<Rightarrow> Inr (map h ys, g'))"
    using Cons.IH Cons.prems by simp
  show ?case by (simp add: a r split: sum.splits prod.splits)
qed

lemma swaps_call_no_skip:
  assumes keep: "\<forall>t \<in> set (concat xss). RandomSwaps_skip_masks self [t] \<noteq> Some [True]"
    and b: "b \<longrightarrow> length xss = 1"
  shows "RandomSwaps_call_ragged R self g b xss =
     (case map_fn (\<lambda>xs g. case RandomSwaps_swap R self [0..<length xs] g of
                             Inl e \<Rightarrow> Inl e
                           | Inr (ps, g') \<Rightarrow> Inr (map (nth xs) ps, g')) xss g of
        Inl e \<Rightarrow> Inl e
      | Inr (yss, g') \<Rightarrow> Inr (Rank2 yss, g'))"
proof -
  let ?row = "\<lambda>xs g. case RandomSwaps_swap R self [0..<length xs] g of
                        Inl e \<Rightarrow> Inl e
                      | Inr (ps, g') \<Rightarrow> Inr (map (nth xs) ps, g')"
  let ?N = "length (concat xss)"
  let ?P = "unflatten (map length xss) [0..<?N]"
  have P: "RandomSwaps_positions self xss = ?P" by (rule positions_no_skip [OF keep])
  have cP: "concat ?P = [0..<?N]"
    by (rule concat_unflatten) (simp add: sum_list_lengths)
  have lP: "map length ?P = map length xss"
    by (rule map_length_unflatten) (simp add: sum_list_lengths)
  have M: "(case map_fn (RandomSwaps_swap R self) ?P g of
      Inl e \<Rightarrow> Inl e
    | Inr (pss, g') \<Rightarrow> Inr (map (map (nth (concat xss))) pss, g')) = map_fn ?row xss g"
    using map_fn_swap_rows [where R = R and self = self and xss = xss and g = g
        and pre = "[]" and post = "[]"]
    by (simp cong: sum.case_cong prod.case_cong)
  show ?thesis
  proof (cases "map_fn (RandomSwaps_swap R self) ?P g")
    case (Inl e)
    then have "map_fn ?row xss g = Inl e" using M by simp
    then show ?thesis using Inl by (simp add: RandomSwaps_call_ragged_def P)
  next
    case (Inr r)
    obtain S g' where r: "r = (S, g')" by (cases r)
    let ?Y = "map (map (nth (concat xss))) S"
    have row: "map_fn ?row xss g = Inr (?Y, g')" using M Inr r by simp
    have a2: "list_all2 (\<lambda>p q. mset q = mset p) ?P S"
      by (rule map_fn_all2 [where f = "RandomSwaps_swap R self" and g = g and g' = g'])
         (use Inr r in \<open>simp_all add: swap_mset\<close>)
    have ms: "mset (concat S) = mset [0..<?N]"
      using all2_mset_concat [OF a2] cP by simp
    have inr: "\<forall>i \<in> set (concat S). i < ?N"
      using mset_eq_setD [OF ms] by auto
    have len: "length (concat S) = ?N"
      using ms by (metis size_mset length_upt diff_zero)
    have lS: "map length S = map length xss"
      using all2_mset_lengths [OF a2] lP by simp
    have lY: "map length ?Y = map length xss" using lS by (simp add: comp_def)
    have g: "gather (flat_values xss) (flat_values S) = Inr (concat ?Y)"
      using inr by (simp add: gather_def flat_values_def map_concat)
    have f: "from_row_splits (concat ?Y) (row_splits xss) = Inr ?Y"
      using len unflatten_concat' [of ?Y] unfolding lY
      by (simp add: from_row_splits_rows length_concat comp_def flip: map_concat)
    have sq: "b \<Longrightarrow> \<exists>t. squeeze ?Y = Inr t"
    proof -
      assume "b"
      then have "length ?Y = 1" using b lS by (metis length_map)
      then obtain y where "?Y = [y]" by (cases ?Y) auto
      then show ?thesis by (simp del: map_map)
    qed
    show ?thesis
      using Inr r g f row sq
      by (auto simp: RandomSwaps_call_ragged_def P split: sum.splits)
  qed
qed

lemma map_fn_length: "map_fn f xs g = Inr (ys, g') \<Longrightarrow> length ys = length xs"
  using map_fn_all2 [of xs f "\<lambda>x y. True" g ys g'] by (auto dest: list_all2_lengthD)

lemma swaps_call_rank1:
  "RandomSwaps_call R self g (Rank1 xs) = Inr (y, g') \<Longrightarrow> rank y = 2"
  by (auto simp: RandomSwaps_call_ragged_def split: sum.splits if_splits)

lemma swaps_row_mset:
  assumes "RandomSwaps_swap R self [0..<length xs] g = Inr (ps, g')"
  shows "mset (map (nth xs) ps) = mset xs"
proof -
  have "mset (map (nth xs) ps) = image_mset (nth xs) (mset ps)" by simp
  also have "\<dots> = image_mset (nth xs) (mset [0..<length xs])"
    using swap_mset [OF assms] by simp
  also have "\<dots> = mset (map (nth xs) [0..<length xs])" by simp
  also have "\<dots> = mset xs" by (simp add: map_nth)
  finally show ?thesis .
qed

lemma swaps_preserve_tokens:
  assumes "RandomSwaps_call R self g (Rank2 xss) = Inr (out, g')"
  shows "(\<forall>t \<in> set (concat xss). RandomSwaps_skip_masks self [t] \<noteq> Some [True]) \<and>
         (\<exists>yss. out = Rank2 yss \<and> list_all2 (\<lambda>xs ys. mset ys = mset xs) xss yss)"
proof -
  have keep: "\<forall>t \<in> set (concat xss). RandomSwaps_skip_masks self [t] \<noteq> Some [True]"
  proof (rule ccontr)
    assume "\<not> ?thesis"
    then obtain t where "t \<in> set (concat xss)" "RandomSwaps_skip_masks self [t] = Some [True]"
      by blast
    from swaps_call_fails_on_skip [OF this, of R g False] assms show False by simp
  qed
  let ?row = "\<lambda>xs g. case RandomSwaps_swap R self [0..<length xs] g of
                        Inl e \<Rightarrow> Inl e
                      | Inr (ps, g') \<Rightarrow> Inr (map (nth xs) ps, g')"
  from assms swaps_call_no_skip [OF keep, of False R g]
  obtain yss where m: "map_fn ?row xss g = Inr (yss, g')" and out: "out = Rank2 yss"
    by (auto split: sum.splits prod.splits)
  have "list_all2 (\<lambda>xs ys. mset ys = mset xs) xss yss"
  proof (rule map_fn_all2 [OF _ m])
    fix x g1 y g2
    assume "?row x g1 = Inr (y, g2)"
    then obtain ps where "RandomSwaps_swap R self [0..<length x] g1 = Inr (ps, g2)"
      and "y = map (nth x) ps"
      by (auto split: sum.splits prod.splits)
    then show "mset y = mset x" using swaps_row_mset by blast
  qed
  with keep out show ?thesis by blast
qed

lemma map_fn_return: "map_fn (\<lambda>x g. Inr (x, g)) xs g = Inr (xs, g)"
  by (induction xs) simp_all

lemma swaps_zero_identity:
  assumes "\<forall>t \<in> set (concat xss). RandomSwaps_skip_masks self [t] \<noteq> Some [True]"
    and "swaps self = 0"
  shows "RandomSwaps_call R self g (Rank2 xss) = Inr (Rank2 xss, g)"
proof -
  have eq: "(\<lambda>xs g. case RandomSwaps_swap R self [0..<length xs] g of
                        Inl e \<Rightarrow> Inl e
                      | Inr (ps, g') \<Rightarrow> Inr (map (nth xs) ps, g')) = (\<lambda>xs g. Inr (xs, g))"
    by (intro ext) (auto simp: RandomSwaps_swap_def assms(2) map_nth length_Suc_conv)
  have c: "RandomSwaps_call_ragged R self g False xss =
     (case map_fn (\<lambda>xs g. case RandomSwaps_swap R self [0..<length xs] g of
                             Inl e \<Rightarrow> Inl e
                           | Inr (ps, g') \<Rightarrow> Inr (map (nth xs) ps, g')) xss g of
        Inl e \<Rightarrow> Inl e
      | Inr (yss, g') \<Rightarrow> Inr (Rank2 yss, g'))"
    by (rule swaps_call_no_skip [OF assms(1)]) simp
  show ?thesis
    unfolding RandomSwaps_call.simps c eq map_fn_return by simp
qed

text \<open>
  Claim C1. The swap layer is to return, for every configuration, sequences with the
  tokens of the input and every skip-protected token at its index. Without a
  skip-protected token in the batch the tokens are preserved (\<open>swaps_preserve_tokens\<close>).
  With one, \<^verbatim>\<open>call\<close> gathers the eligible tokens only and rebuilds the batch over the
  row splits of the input, which the smaller number of values does not fit
  (\<open>swaps_call_fails_on_skip\<close>): the call fails, here for the input of the class
  docstring with \<^verbatim>\<open>skip_list=["like"]\<close>, whatever the draws are.
\<close>

theorem swaps_skip_protected_token_fails:
  "\<forall>R g. isl (RandomSwaps_call R
      \<lparr>name = None, trainable = True, dtype = DT_STRING, seed = 42,
       skip_list = Some [''like''], skip_fn = None, swaps = 3, py_skip_fn = None\<rparr> g
      (Rank2 [[''Hey'', ''I'', ''like'']]))"
proof (intro allI)
  fix R g
  let ?self = "\<lparr>name = None, trainable = True, dtype = DT_STRING, seed = 42,
       skip_list = Some [''like''], skip_fn = None, swaps = 3, py_skip_fn = None\<rparr>"
  have "''like'' \<in> set (concat [[''Hey'', ''I'', ''like'']])" by simp
  moreover have "RandomSwaps_skip_masks ?self [''like''] = Some [True]"
    by (simp add: RandomSwaps_skip_masks_def StaticHashTable_lookup_def)
  ultimately show "isl (RandomSwaps_call R ?self g (Rank2 [[''Hey'', ''I'', ''like'']]))"
    using swaps_call_fails_on_skip [of "''like''" "[[''Hey'', ''I'', ''like'']]" ?self R g False]
    by simp
qed

text \<open>
  Claim C7. A sequence with no eligible index is to come back unchanged, without an
  out-of-range access. \<^verbatim>\<open>_swap\<close> returns early only when there is exactly one
  position: with none (here an empty sequence, no skip mechanism) and \<^verbatim>\<open>swaps = 1\<close>
  the draw has shape \<^verbatim>\<open>[0]\<close> and \<^verbatim>\<open>index[0]\<close> is out of range. With \<^verbatim>\<open>swaps = 0\<close>
  and no skip-protected token the input does come back unchanged
  (\<open>swaps_zero_identity\<close>).
\<close>

theorem swaps_empty_sequence_fails:
  "\<forall>R g. RandomSwaps_call R
      \<lparr>name = None, trainable = True, dtype = DT_STRING, seed = 42,
       skip_list = (None :: string list option),
       skip_fn = None, swaps = 1, py_skip_fn = None\<rparr> g (Rank2 [[]])
    = Inl (InvalidArgumentError ''slice index out of bounds'')"
  by (simp add: RandomSwaps_call_ragged_def RandomSwaps_positions_def RandomSwaps_skip_masks_def
      flat_values_def with_flat_values_def RandomSwaps_swap_def random_uniform_def
      stateless_uniform_def getitem_def)

section \<open>Output shape\<close>

lemma insertion_call_shape:
  assumes "RandomInsertion_call R B self g x = Inr (y, g')"
  shows "rank y = rank x \<and> length (rows_of y) = length (rows_of x)"
proof (cases x)
  case (Rank1 xs)
  with assms obtain inserted where
    c: "RandomInsertion_call_ragged R B self g [xs] = Inr (inserted, g')"
    and s: "squeeze (map fst inserted) = Inr y"
    by (auto split: sum.splits prod.splits)
  from s show ?thesis using Rank1
    by (cases "map fst inserted" rule: squeeze.cases) auto
next
  case (Rank2 xss)
  with assms obtain inserted where
    c: "RandomInsertion_call_ragged R B self g xss = Inr (inserted, g')"
    and y: "y = Rank2 (map fst inserted)"
    by (auto split: sum.splits prod.splits)
  have "length (fst (RandomInsertion_num_to_select B self g xss)) = length xss"
    by (simp add: RandomInsertion_num_to_select_def make_seeds_def stateless_binomial_def
        Let_def split: option.splits)
  then have "length inserted = length xss"
    using c map_fn_length [of "RandomInsertion_insert R self" _ _ inserted g']
    by (auto simp: RandomInsertion_call_ragged_def split: prod.splits)
  then show ?thesis using y Rank2 by simp
qed (use assms in simp_all)

text \<open>
  Claim C2. A rank-1 input is to give a rank-1 output. The insertion layer does so
  (\<open>insertion_call_shape\<close>). The swap layer assigns the squeezed tensor to \<^verbatim>\<open>inputs\<close>
  and returns \<^verbatim>\<open>swapped\<close>, so that a rank-1 input comes back as a batch of one
  sequence, of rank 2 (\<open>swaps_call_rank1\<close>).
\<close>

theorem swaps_rank1_returns_rank2:
  "\<forall>R g. RandomSwaps_call R
      \<lparr>name = None, trainable = True, dtype = DT_STRING, seed = 42, skip_list = None,
       skip_fn = None, swaps = 0, py_skip_fn = None\<rparr> g (Rank1 [''Hey'', ''I'', ''like''])
    = Inr (Rank2 [[''Hey'', ''I'', ''like'']], g)"
  by (simp add: RandomSwaps_call_ragged_def RandomSwaps_positions_def RandomSwaps_skip_masks_def
      flat_values_def with_flat_values_def RandomSwaps_swap_def gather_def from_row_splits_def
      row_splits_def upt_rec numeral_eq_Suc)

section \<open>Batch-size independence\<close>

lemma wrap_inj: "map (\<lambda>ys. Rank2 [ys]) yss = map (\<lambda>ys. Rank2 [ys]) zss \<longleftrightarrow> yss = zss"
  by (rule inj_map_eq_map) (simp add: inj_on_def)

lemma swaps_patterns:
  "(batch_first_augment_second (RandomSwaps_call R self) g xss = Inr (out, g') \<longleftrightarrow>
      (\<exists>yss. out = Rank2 yss \<and>
         augment_first_batch_second (RandomSwaps_call R self) g xss =
           Inr (map (\<lambda>ys. Rank2 [ys]) yss, g'))) \<and>
   (augment_first_batch_second (RandomSwaps_call R self) g xss = Inr (outs, g') \<longleftrightarrow>
      (\<exists>yss. outs = map (\<lambda>ys. Rank2 [ys]) yss \<and>
         batch_first_augment_second (RandomSwaps_call R self) g xss = Inr (Rank2 yss, g')))"
proof (cases "\<forall>t \<in> set (concat xss). RandomSwaps_skip_masks self [t] \<noteq> Some [True]")
  case True
  let ?row = "\<lambda>xs g. case RandomSwaps_swap R self [0..<length xs] g of
                        Inl e \<Rightarrow> Inl e
                      | Inr (ps, g') \<Rightarrow> Inr (map (nth xs) ps, g')"
  have batch: "batch_first_augment_second (RandomSwaps_call R self) g xss =
      (case map_fn ?row xss g of
         Inl e \<Rightarrow> Inl e
       | Inr (yss, g') \<Rightarrow> Inr (Rank2 yss, g'))"
    using swaps_call_no_skip [OF True, of False R g]
    by (simp add: batch_first_augment_second_def)
  have one: "\<And>xs g. xs \<in> set xss \<Longrightarrow> RandomSwaps_call R self g (Rank1 xs) =
      (case ?row xs g of Inl e \<Rightarrow> Inl e | Inr (ys, g') \<Rightarrow> Inr (Rank2 [ys], g'))"
  proof -
    fix xs g assume "xs \<in> set xss"
    then have k: "\<forall>t \<in> set (concat [xs]). RandomSwaps_skip_masks self [t] \<noteq> Some [True]"
      using True by auto
    show "RandomSwaps_call R self g (Rank1 xs) =
      (case ?row xs g of Inl e \<Rightarrow> Inl e | Inr (ys, g') \<Rightarrow> Inr (Rank2 [ys], g'))"
      using swaps_call_no_skip [OF k, of True R g]
      by (simp split: sum.splits prod.splits)
  qed
  have each: "augment_first_batch_second (RandomSwaps_call R self) g xss =
      (case map_fn ?row xss g of
         Inl e \<Rightarrow> Inl e
       | Inr (yss, g') \<Rightarrow> Inr (map (\<lambda>ys. Rank2 [ys]) yss, g'))"
    unfolding augment_first_batch_second_def by (rule map_fn_post) (rule one)
  show ?thesis
    unfolding batch each
    by (cases "map_fn ?row xss g") (auto simp: wrap_inj)
next
  case False
  then obtain t where t: "t \<in> set (concat xss)" "RandomSwaps_skip_masks self [t] = Some [True]"
    by blast
  from t(1) obtain xs where xs: "xs \<in> set xss" "t \<in> set xs" by auto
  have b: "isl (batch_first_augment_second (RandomSwaps_call R self) g xss)"
    using swaps_call_fails_on_skip [OF t, of R g False]
    by (simp add: batch_first_augment_second_def)
  have one: "\<And>g1. isl (RandomSwaps_call R self g1 (Rank1 xs))"
    using swaps_call_fails_on_skip [of t "[xs]" self R _ True] xs(2) t(2) by simp
  have a: "isl (augment_first_batch_second (RandomSwaps_call R self) g xss)"
  proof (cases "augment_first_batch_second (RandomSwaps_call R self) g xss")
    case (Inl e)
    then show ?thesis by simp
  next
    case (Inr r)
    obtain outs g' where r: "r = (outs, g')" by (cases r)
    from map_fn_Inr_each [OF Inr [unfolded r augment_first_batch_second_def] xs(1)]
    obtain g1 y g2 where "RandomSwaps_call R self g1 (Rank1 xs) = Inr (y, g2)" by blast
    with one [of g1] show ?thesis by simp
  qed
  from a b show ?thesis by auto
qed

lemma insertion_single_patterns:
  "(batch_first_augment_second (RandomInsertion_call R B self) g [xs] = Inr (out, g') \<longleftrightarrow>
      (\<exists>ys. out = Rank2 [ys] \<and>
         augment_first_batch_second (RandomInsertion_call R B self) g [xs] =
           Inr ([Rank1 ys], g'))) \<and>
   (augment_first_batch_second (RandomInsertion_call R B self) g [xs] = Inr (outs, g') \<longleftrightarrow>
      (\<exists>ys. outs = [Rank1 ys] \<and>
         batch_first_augment_second (RandomInsertion_call R B self) g [xs] =
           Inr (Rank2 [ys], g')))"
proof (cases "RandomInsertion_call_ragged R B self g [xs]")
  case (Inl e)
  then show ?thesis
    by (simp add: batch_first_augment_second_def augment_first_batch_second_def)
next
  case (Inr r)
  obtain ins g1 where r: "r = (ins, g1)" by (cases r)
  have "length (fst (RandomInsertion_num_to_select B self g [xs])) = 1"
    using num_to_select_props(1) [of B self g "[xs]"] by simp
  then have "length ins = 1"
    using Inr r map_fn_length [of "RandomInsertion_insert R self" _ _ ins g1]
    by (auto simp: RandomInsertion_call_ragged_def split: prod.splits)
  then obtain ys c where ins: "ins = [(ys, c)]" by (cases ins) auto
  show ?thesis
    using Inr r ins
    by (auto simp: batch_first_augment_second_def augment_first_batch_second_def)
qed

text \<open>
  Claim C3 as stated fails for the insertion layer. A call on a batch makes one binomial
  draw and then the draws of the sequences in turn; calls on the sequences one by one
  make a binomial draw before each sequence, so from the second sequence on the draws
  are others. Here the raw value of a uniform draw is the draw counter and the binomial
  draw is the token count (as it is at rate 1): the second sequence gets its token after
  index 0 in the batch and after index 1 on its own.
\<close>

theorem insertion_batch_differs_from_per_sequence:
  "batch_first_augment_second
     (RandomInsertion_call (\<lambda>k n m i. snd k) (\<lambda>k c p i. c ! i)
        \<lparr>name = None, trainable = True, dtype = DT_STRING, seed = 42,
         skip_list = None, skip_fn = None, rate = Finite 1, max_insertions = Some 1,
         insertion_list = Some [''wind''], insertion_fn = None, insertion_py_fn = None,
         skip_py_fn = None\<rparr>) 0
     [[''Hey'', ''I'', ''like''], [''Keras'', ''and'', ''Tensorflow'']] =
     Inr (Rank2 [[''Hey'', ''I'', ''wind'', ''like''],
                 [''Keras'', ''wind'', ''and'', ''Tensorflow'']], 5) \<and>
   augment_first_batch_second
     (RandomInsertion_call (\<lambda>k n m i. snd k) (\<lambda>k c p i. c ! i)
        \<lparr>name = None, trainable = True, dtype = DT_STRING, seed = 42,
         skip_list = None, skip_fn = None, rate = Finite 1, max_insertions = Some 1,
         insertion_list = Some [''wind''], insertion_fn = None, insertion_py_fn = None,
         skip_py_fn = None\<rparr>) 0
     [[''Hey'', ''I'', ''like''], [''Keras'', ''and'', ''Tensorflow'']] =
     Inr ([Rank1 [''Hey'', ''I'', ''wind'', ''like''],
           Rank1 [''Keras'', ''and'', ''wind'', ''Tensorflow'']], 6)"
  by code_simp

text \<open>
  Claim C3, amended. For the swap layer, the call on the whole batch returns the
  sequences \<open>yss\<close> exactly when the calls on the sequences one by one (in batch order,
  the state carried from call to call) return, for each sequence, the batch of one
  sequence \<^verbatim>\<open>[ys]\<close> (rank 2, see claim C2) with \<open>ys\<close> the corresponding sequence of
  \<open>yss\<close>, and the final states are equal. For the insertion layer, on a batch of one
  sequence, the call on the batch returns \<^verbatim>\<open>[ys]\<close> exactly when the call on the
  sequence returns \<open>ys\<close>, with equal final states.
\<close>

theorem batch_size_independence:
  "(batch_first_augment_second (RandomSwaps_call R self) g xss = Inr (out, g') \<longleftrightarrow>
      (\<exists>yss. out = Rank2 yss \<and>
         augment_first_batch_second (RandomSwaps_call R self) g xss =
           Inr (map (\<lambda>ys. Rank2 [ys]) yss, g'))) \<and>
   (augment_first_batch_second (RandomSwaps_call R self) g xss = Inr (outs, g') \<longleftrightarrow>
      (\<exists>yss. outs = map (\<lambda>ys. Rank2 [ys]) yss \<and>
         batch_first_augment_second (RandomSwaps_call R self) g xss = Inr (Rank2 yss, g'))) \<and>
   (batch_first_augment_second (RandomInsertion_call R B self') g [xs] = Inr (out, g') \<longleftrightarrow>
      (\<exists>ys. out = Rank2 [ys] \<and>
         augment_first_batch_second (RandomInsertion_call R B self') g [xs] =
           Inr ([Rank1 ys], g'))) \<and>
   (augment_first_batch_second (RandomInsertion_call R B self') g [xs] = Inr (outs, g') \<longleftrightarrow>
      (\<exists>ys. outs = [Rank1 ys] \<and>
         batch_first_augment_second (RandomInsertion_call R B self') g [xs] =
           Inr (Rank2 [ys], g')))"
proof -
  note a = swaps_patterns [of R self g xss out g' outs]
    and b = insertion_single_patterns [of R B self' g xs out g' outs]
  show ?thesis
    by (rule conjI [OF conjunct1 [OF a] conjI [OF conjunct2 [OF a] b]])
qed

theorem batch_size_independence_witness:
  "augment_first_batch_second (RandomSwaps_call (\<lambda>k n m i. i)
      \<lparr>name = None, trainable = True, dtype = DT_STRING, seed = 42, skip_list = None,
       skip_fn = None, swaps = 1, py_skip_fn = None\<rparr>) 0
      [[''Hey'', ''I'', ''like''], [''Keras''], [''and'', ''Tensorflow'']] =
     Inr ([Rank2 [[''I'', ''Hey'', ''like'']], Rank2 [[''Keras'']],
           Rank2 [[''Tensorflow'', ''and'']]], 2) \<and>
   augment_first_batch_second (RandomInsertion_call (\<lambda>k n m i. i) (\<lambda>k c p i. c ! i)
      \<lparr>name = None, trainable = True, dtype = DT_STRING, seed = 42,
       skip_list = Some [''like''], skip_fn = None, rate = Finite 1, max_insertions = Some 2,
       insertion_list = Some [''wind''], insertion_fn = None, insertion_py_fn = None,
       skip_py_fn = None\<rparr>) 0 [[''Hey'', ''I'', ''like'']] =
     Inr ([Rank1 [''Hey'', ''I'', ''wind'', ''wind'', ''like'']], 5)"
proof -
  let ?R = "\<lambda>(k :: key) (n :: nat) (m :: nat) (i :: nat). i"
  let ?B = "\<lambda>(k :: key) (c :: nat list) (p :: pyfloat) (i :: nat). c ! i"
  let ?sw = "\<lparr>name = None, trainable = True, dtype = DT_STRING, seed = 42,
       skip_list = (None :: string list option),
       skip_fn = None, swaps = 1, py_skip_fn = None\<rparr>"
  let ?ins = "\<lparr>name = None, trainable = True, dtype = DT_STRING, seed = 42,
       skip_list = Some [''like''], skip_fn = None, rate = Finite 1, max_insertions = Some 2,
       insertion_list = Some [''wind''], insertion_fn = None, insertion_py_fn = None,
       skip_py_fn = None\<rparr>"
  have b1: "batch_first_augment_second (RandomSwaps_call ?R ?sw) 0
      [[''Hey'', ''I'', ''like''], [''Keras''], [''and'', ''Tensorflow'']] =
     Inr (Rank2 [[''I'', ''Hey'', ''like''], [''Keras''], [''Tensorflow'', ''and'']], 2)"
    by code_simp
  have b2: "batch_first_augment_second (RandomInsertion_call ?R ?B ?ins) 0
      [[''Hey'', ''I'', ''like'']] =
     Inr (Rank2 [[''Hey'', ''I'', ''wind'', ''wind'', ''like'']], 5)"
    by code_simp
  note t1 = batch_size_independence [where R = ?R and B = ?B and self = ?sw and self' = ?ins
        and g = 0 and xs = "[''Hey'', ''I'', ''like'']"
        and xss = "[[''Hey'', ''I'', ''like''], [''Keras''], [''and'', ''Tensorflow'']]"
        and out = "Rank2 [[''I'', ''Hey'', ''like''], [''Keras''], [''Tensorflow'', ''and'']]"
        and g' = 2 and outs = "[]"]
  note t2 = batch_size_independence [where R = ?R and B = ?B and self = ?sw and self' = ?ins
        and g = 0 and xs = "[''Hey'', ''I'', ''like'']"
        and xss = "[[''Hey'', ''I'', ''like''], [''Keras''], [''and'', ''Tensorflow'']]"
        and out = "Rank2 [[''Hey'', ''I'', ''wind'', ''wind'', ''like'']]"
        and g' = 5 and outs = "[]"]
  from conjunct1 [OF t1] b1 obtain yss where
    "Rank2 [[''I'', ''Hey'', ''like''], [''Keras''], [''Tensorflow'', ''and'']] = Rank2 yss"
    and e1: "augment_first_batch_second (RandomSwaps_call ?R ?sw) 0
      [[''Hey'', ''I'', ''like''], [''Keras''], [''and'', ''Tensorflow'']] =
      Inr (map (\<lambda>ys. Rank2 [ys]) yss, 2)"
    by blast
  then have c1: "augment_first_batch_second (RandomSwaps_call ?R ?sw) 0
      [[''Hey'', ''I'', ''like''], [''Keras''], [''and'', ''Tensorflow'']] =
     Inr ([Rank2 [[''I'', ''Hey'', ''like'']], Rank2 [[''Keras'']],
           Rank2 [[''Tensorflow'', ''and'']]], 2)"
    by auto
  from conjunct1 [OF conjunct2 [OF conjunct2 [OF t2]]] b2 obtain ys where
    "Rank2 [[''Hey'', ''I'', ''wind'', ''wind'', ''like'']] = Rank2 [ys]"
    and e2: "augment_first_batch_second (RandomInsertion_call ?R ?B ?ins) 0
      [[''Hey'', ''I'', ''like'']] = Inr ([Rank1 ys], 5)"
    by blast
  then have c2: "augment_first_batch_second (RandomInsertion_call ?R ?B ?ins) 0
      [[''Hey'', ''I'', ''like'']] =
     Inr ([Rank1 [''Hey'', ''I'', ''wind'', ''wind'', ''like'']], 5)"
    by auto
  show ?thesis using c1 c2 by (rule conjI)
qed

section \<open>Configuration round trip\<close>

lemma check_dtype_idem: "check_dtype k = Inr d \<Longrightarrow> check_dtype (Some (Some d)) = Inr d"
  by (cases k rule: check_dtype.cases) (auto split: if_splits)

lemma arg_config_opt:
  "arg the_int (Some (config_opt CInt vi)) = Inr vi"
  "arg the_string (Some (config_opt CString vs)) = Inr vs"
  "arg the_list (Some (config_opt CList vl)) = Inr vl"
  "arg the_predicate (Some (config_opt CPredicate vp)) = Inr vp"
  "arg the_function (Some (config_opt CFunction vf)) = Inr vf"
  by (cases vi; cases vs; cases vl; cases vp; cases vf; simp add: config_opt_def)+

lemma insertion_config_round_trip:
  assumes "RandomInsertion_init fresh r mi il ifn ipf sl sf spf sd nm kw = Inr self"
  shows "RandomInsertion_from_config fresh' (RandomInsertion_get_config self) = Inr self"
proof -
  from assms obtain d where d: "check_dtype (kw_dtype kw) = Inr d"
    by (auto simp: RandomInsertion_init_def split: sum.splits)
  from assms d have v: "\<not> (case mi of None \<Rightarrow> False | Some m \<Rightarrow> m < 0)" "\<not> (float_gt r 1 \<or> float_lt r 0)"
    "\<not> count_list [sl = None, sf = None, spf = None] True < 2"
    "\<not> count_list [il = None, ifn = None, ipf = None] True \<noteq> 2"
    by (simp_all add: RandomInsertion_init_def split: if_splits)
  from assms d v have self: "self = \<lparr>name = nm,
      trainable = (case kw_trainable kw of None \<Rightarrow> True | Some t \<Rightarrow> t), dtype = d,
      seed = (case sd of None \<Rightarrow> fresh | Some s \<Rightarrow> s), skip_list = sl, skip_fn = sf,
      rate = r, max_insertions = mi, insertion_list = il, insertion_fn = ifn,
      insertion_py_fn = ipf, skip_py_fn = spf\<rparr>"
    by (simp add: RandomInsertion_init_def)
  have cfg: "RandomInsertion_get_config self =
     [(''name'', config_opt CString nm),
      (''trainable'', CBool (case kw_trainable kw of None \<Rightarrow> True | Some t \<Rightarrow> t)),
      (''dtype'', CDtype d),
      (''rate'', CFloat r),
      (''max_insertions'', config_opt CInt mi),
      (''insertion_list'', config_opt CList il),
      (''insertion_fn'', config_opt CFunction ifn),
      (''insertion_py_fn'', config_opt CFunction ipf),
      (''skip_list'', config_opt CList sl),
      (''skip_fn'', config_opt CPredicate sf),
      (''skip_py_fn'', config_opt CPredicate spf),
      (''seed'', CInt (case sd of None \<Rightarrow> fresh | Some s \<Rightarrow> s))]"
    by (simp add: self RandomInsertion_get_config_def Layer_get_config_def dict_update_def)
  show ?thesis
    unfolding cfg
    using v check_dtype_idem [OF d]
    by (simp add: RandomInsertion_from_config_def bind_err_def required_def arg_config_opt
        RandomInsertion_init_def self)
qed

text \<open>
  Claim C8. The exported configuration is to hold the skip mechanism, and rebuilding
  from it is to give an equivalent layer. The insertion layer exports every constructor
  parameter and rebuilds to the same layer (\<open>insertion_config_round_trip\<close>). The swap
  layer exports \<^verbatim>\<open>swaps\<close> and \<^verbatim>\<open>seed\<close> only: the configuration of a layer with a
  skip list has no \<^verbatim>\<open>skip_list\<close> key, and the layer rebuilt from it skips nothing.
\<close>

theorem swaps_config_drops_skip_list:
  "map_of (RandomSwaps_get_config
      \<lparr>name = None, trainable = True, dtype = DT_STRING, seed = 42, skip_list = Some [''like''],
       skip_fn = None, swaps = 3, py_skip_fn = None\<rparr>) ''skip_list'' = None \<and>
   RandomSwaps_from_config fresh (RandomSwaps_get_config
      \<lparr>name = None, trainable = True, dtype = DT_STRING, seed = 42, skip_list = Some [''like''],
       skip_fn = None, swaps = 3, py_skip_fn = None\<rparr>) =
     Inr \<lparr>name = None, trainable = True, dtype = DT_STRING, seed = 42, skip_list = None,
       skip_fn = None, swaps = 3, py_skip_fn = None\<rparr>"
  by (simp add: RandomSwaps_get_config_def Layer_get_config_def dict_update_def config_opt_def
      RandomSwaps_from_config_def bind_err_def required_def RandomSwaps_init_def)

end
